theory Spec2Isabelle
  imports Main "HOL-Library.Word" "HOL-Library.Numeral_Type"
begin

section \<open>Confidential ledger: Pedersen commitments, ECIES openings, verification\<close>

text \<open>
  A shallow embedding of \<^verbatim>\<open>ledger.impl.ts\<close> (helpers, \<^verbatim>\<open>commit\<close>, \<^verbatim>\<open>eciesEncrypt\<close>,
  \<^verbatim>\<open>eciesDecrypt\<close>, \<^verbatim>\<open>mintPoC\<close>, \<^verbatim>\<open>verifyTotal\<close>, \<^verbatim>\<open>verifyOpening\<close>, \<^verbatim>\<open>getUserView\<close>,
  \<^verbatim>\<open>updateOwnEntry\<close>) and of \<^verbatim>\<open>pedersen\<close> and \<^verbatim>\<open>ristrettoAdd\<close> of \<^verbatim>\<open>shared/crypto\<close>.

  The code calls three things that are not part of the repository: the ristretto255 group
  of \<^verbatim>\<open>@noble/curves\<close>, the platform cryptography (X25519, HKDF, AES-GCM, base64) and
  \<^verbatim>\<open>JSON.parse\<close>. They are parameters of the model (the records \<open>curve\<close> and
  \<open>platform\<close>); what the theorems need of them is stated in \<open>curve_ok\<close> and
  \<open>platform_ok\<close>. Everything else is translated from the source: a thrown exception is
  the value \<open>None\<close> (or \<open>Inl\<close> of an error), a JS string is a \<open>string\<close> (a list of
  8-bit characters), a \<^verbatim>\<open>Uint8Array\<close> is a list of 8-bit words, a \<^verbatim>\<open>bigint\<close> is an \<open>int\<close>.
\<close>

subsection \<open>Bytes, characters, digits\<close>

type_synonym byte = "8 word"

type_synonym bytes = "byte list"

definition charCode :: "char \<Rightarrow> nat" where
  "charCode ch = of_char ch"

text \<open>\<^verbatim>\<open>text(s)\<close>, that is \<^verbatim>\<open>new TextEncoder().encode(s)\<close>, on the ASCII strings the code encodes.\<close>

definition text_bytes :: "string \<Rightarrow> bytes" where
  "text_bytes s = map (\<lambda>ch. of_nat (charCode ch)) s"

text \<open>
  The white space that \<^verbatim>\<open>parseInt\<close> skips and \<^verbatim>\<open>BigInt(string)\<close> trims (the
  \<^verbatim>\<open>StrWhiteSpaceChar\<close> of ECMAScript with a code below 256): TAB, LF, VT, FF, CR, SP, NBSP.
\<close>

definition isWhiteSpace :: "char \<Rightarrow> bool" where
  "isWhiteSpace ch = (charCode ch \<in> {9, 10, 11, 12, 13, 32, 160})"

text \<open>The value of a character as a digit: \<^verbatim>\<open>0-9\<close>, \<^verbatim>\<open>a-f\<close>, \<^verbatim>\<open>A-F\<close>.\<close>

definition digitOf :: "char \<Rightarrow> nat option" where
  "digitOf ch =
     (let k = charCode ch in
      if 48 \<le> k \<and> k \<le> 57 then Some (k - 48)
      else if 97 \<le> k \<and> k \<le> 102 then Some (k - 87)
      else if 65 \<le> k \<and> k \<le> 70 then Some (k - 55)
      else None)"

definition isDigitIn :: "nat \<Rightarrow> char \<Rightarrow> bool" where
  "isDigitIn radix ch = (case digitOf ch of None \<Rightarrow> False | Some d \<Rightarrow> d < radix)"

definition digitVal :: "char \<Rightarrow> nat" where
  "digitVal ch = (case digitOf ch of None \<Rightarrow> 0 | Some d \<Rightarrow> d)"

text \<open>The number that a string of digits denotes in a radix.\<close>

definition digitsVal :: "nat \<Rightarrow> string \<Rightarrow> nat" where
  "digitsVal radix ds = foldl (\<lambda>acc ch. acc * radix + digitVal ch) 0 ds"

definition allDigits :: "nat \<Rightarrow> string \<Rightarrow> bool" where
  "allDigits radix ds = (ds \<noteq> [] \<and> list_all (isDigitIn radix) ds)"

subsection \<open>The helper \<^verbatim>\<open>hex\<close>\<close>

definition hexDigit :: "nat \<Rightarrow> char" where
  "hexDigit n = ''0123456789abcdef'' ! n"

text \<open>\<^verbatim>\<open>b[i].toString(16).padStart(2, "0")\<close>\<close>

definition byteToHex :: "byte \<Rightarrow> string" where
  "byteToHex b = [hexDigit (unat b div 16), hexDigit (unat b mod 16)]"

definition hex_fromBytes :: "bytes \<Rightarrow> string" where
  "hex_fromBytes b = concat (map byteToHex b)"

text \<open>
  \<^verbatim>\<open>parseInt(s, 16)\<close>: leading white space is skipped, then an optional sign, then an
  optional \<^verbatim>\<open>0x\<close> or \<^verbatim>\<open>0X\<close>; the longest prefix of hexadecimal digits is read, and the
  result is \<^verbatim>\<open>NaN\<close> (here \<open>None\<close>) when that prefix is empty.
\<close>

definition parseInt16 :: "string \<Rightarrow> int option" where
  "parseInt16 s =
     (let s1 = dropWhile isWhiteSpace s;
          sgn1 = (case s1 of [] \<Rightarrow> 1 | ch # _ \<Rightarrow> if ch = CHR ''-'' then - 1 else (1::int));
          s2 = (case s1 of [] \<Rightarrow> [] | ch # t \<Rightarrow> if ch = CHR ''-'' \<or> ch = CHR ''+'' then t else s1);
          s3 = (case s2 of
                  a # b # t \<Rightarrow> if a = CHR ''0'' \<and> (b = CHR ''x'' \<or> b = CHR ''X'') then t else s2
                | _ \<Rightarrow> s2);
          z = takeWhile (isDigitIn 16) s3
      in if z = [] then None else Some (sgn1 * int (digitsVal 16 z)))"

text \<open>Storing a number into a \<^verbatim>\<open>Uint8Array\<close>: \<^verbatim>\<open>NaN\<close> becomes 0, an integer wraps modulo 256.\<close>

definition toUint8 :: "int option \<Rightarrow> byte" where
  "toUint8 x = (case x of None \<Rightarrow> 0 | Some n \<Rightarrow> word_of_int n)"

text \<open>
  \<^verbatim>\<open>hex.toBytes\<close>: the array has \<open>\<lfloor>length h / 2\<rfloor>\<close> bytes, byte \<open>i\<close> is
  \<^verbatim>\<open>parseInt(h.slice(2i, 2i + 2), 16)\<close>; a trailing odd character is never read.
\<close>

fun hex_toBytes :: "string \<Rightarrow> bytes" where
  "hex_toBytes (a # b # rest) = toUint8 (parseInt16 [a, b]) # hex_toBytes rest"
| "hex_toBytes _ = []"

subsection \<open>\<^verbatim>\<open>bigint\<close>: \<^verbatim>\<open>BigInt(string)\<close>, \<^verbatim>\<open>toString(10)\<close>, \<^verbatim>\<open>modL\<close>\<close>

definition trimWS :: "string \<Rightarrow> string" where
  "trimWS s = rev (dropWhile isWhiteSpace (rev (dropWhile isWhiteSpace s)))"

definition hasPrefix0 :: "char \<Rightarrow> char \<Rightarrow> string \<Rightarrow> bool" where
  "hasPrefix0 lo up s =
     (case s of a # b # _ \<Rightarrow> a = CHR ''0'' \<and> (b = lo \<or> b = up) | _ \<Rightarrow> False)"

text \<open>
  \<^verbatim>\<open>BigInt(s)\<close> for a string \<open>s\<close> (ECMAScript \<^verbatim>\<open>StringToBigInt\<close>): white space is
  trimmed at both ends; the empty string is 0; \<^verbatim>\<open>0x\<close>, \<^verbatim>\<open>0o\<close>, \<^verbatim>\<open>0b\<close> introduce
  unsigned hexadecimal, octal and binary digits; otherwise an optional sign and decimal
  digits. Anything else is a \<^verbatim>\<open>SyntaxError\<close> (here \<open>None\<close>).
\<close>

definition StringToBigInt :: "string \<Rightarrow> int option" where
  "StringToBigInt str =
     (let s = trimWS str in
      if s = [] then Some 0
      else if hasPrefix0 (CHR ''x'') (CHR ''X'') s then
        (if allDigits 16 (drop 2 s) then Some (int (digitsVal 16 (drop 2 s))) else None)
      else if hasPrefix0 (CHR ''o'') (CHR ''O'') s then
        (if allDigits 8 (drop 2 s) then Some (int (digitsVal 8 (drop 2 s))) else None)
      else if hasPrefix0 (CHR ''b'') (CHR ''B'') s then
        (if allDigits 2 (drop 2 s) then Some (int (digitsVal 2 (drop 2 s))) else None)
      else
        (let sgn1 = (if hd s = CHR ''-'' then - 1 else (1::int));
             ds = (if hd s = CHR ''-'' \<or> hd s = CHR ''+'' then tl s else s)
         in if allDigits 10 ds then Some (sgn1 * int (digitsVal 10 ds)) else None))"

definition decToBig :: "string \<Rightarrow> int option" where
  "decToBig s = StringToBigInt s"

fun natToDec :: "nat \<Rightarrow> string" where
  "natToDec n = (if n < 10 then [hexDigit n] else natToDec (n div 10) @ [hexDigit (n mod 10)])"

declare natToDec.simps [simp del]

text \<open>\<^verbatim>\<open>b.toString(10)\<close> of a \<^verbatim>\<open>bigint\<close>.\<close>

definition bigToDec :: "int \<Rightarrow> string" where
  "bigToDec b = (if b < 0 then CHR ''-'' # natToDec (nat (- b)) else natToDec (nat b))"

definition L :: int where
  "L = 7237005577332262213973186563042994240857116359379907606001950938285454250989"

text \<open>The remainder \<^verbatim>\<open>%\<close> of \<^verbatim>\<open>bigint\<close> truncates: its sign is the dividend's.\<close>

definition jsRem :: "int \<Rightarrow> int \<Rightarrow> int" where
  "jsRem n m = sgn n * (\<bar>n\<bar> mod \<bar>m\<bar>)"

definition modL :: "int \<Rightarrow> int" where
  "modL n = (let x = jsRem n L in if x < 0 then x + L else x)"

text \<open>
  A JS \<^verbatim>\<open>number\<close> as far as \<^verbatim>\<open>BigInt(n)\<close> tells numbers apart: an integral value converts
  exactly, anything else (a fraction, \<^verbatim>\<open>NaN\<close>, an infinity) throws \<^verbatim>\<open>RangeError\<close>.
\<close>

datatype jsnumber = JSInteger int | JSNonInteger

fun BigInt_number :: "jsnumber \<Rightarrow> int option" where
  "BigInt_number (JSInteger n) = Some n"
| "BigInt_number JSNonInteger = None"

subsection \<open>The ristretto255 group of the library, as a parameter\<close>

text \<open>
  \<^verbatim>\<open>ristretto255.Point\<close>: the constants \<^verbatim>\<open>ZERO\<close> and \<^verbatim>\<open>BASE\<close>, \<^verbatim>\<open>add\<close>,
  \<^verbatim>\<open>toBytes\<close>, \<^verbatim>\<open>fromBytes\<close> (which throws on bytes that are no encoding),
  \<^verbatim>\<open>ristretto255_hasher.hashToCurve\<close>, and the scalar multiple \<open>s \<cdot> P\<close> of the group, from
  which the method \<^verbatim>\<open>multiply\<close> is built. \<^verbatim>\<open>a.equals(b)\<close> is equality of group elements.
\<close>

record 'p curve =
  Point_ZERO :: 'p
  Point_BASE :: 'p
  Point_add :: "'p \<Rightarrow> 'p \<Rightarrow> 'p"
  Point_scalar :: "'p \<Rightarrow> int \<Rightarrow> 'p"
  Point_toBytes :: "'p \<Rightarrow> bytes"
  Point_fromBytes :: "bytes \<Rightarrow> 'p option"
  hashToCurve :: "bytes \<Rightarrow> 'p"

text \<open>
  \<^verbatim>\<open>P.multiply(s)\<close> of the library accepts the scalars \<open>1 \<le> s < L\<close> only and throws on
  every other one, 0 included; this is why \<^verbatim>\<open>commit\<close> treats 0 apart (\<^verbatim>\<open>Handle zero
  separately\<close>, it says). \<open>L\<close>, the constant of \<^verbatim>\<open>modL\<close>, is the order of the group.
\<close>

definition multiply :: "'p curve \<Rightarrow> 'p \<Rightarrow> int \<Rightarrow> 'p option" where
  "multiply c P s = (if 1 \<le> s \<and> s < L then Some (Point_scalar c P s) else None)"

definition G :: "'p curve \<Rightarrow> 'p" where
  "G c = Point_BASE c"

definition H :: "'p curve \<Rightarrow> 'p" where
  "H c = hashToCurve c (text_bytes ''conf-ledger:H:v1'')"

text \<open>
  What the theorems assume of the group: a commutative group in which \<open>s \<cdot> P\<close> is the
  \<open>s\<close>-fold sum, whose order is \<open>L\<close>, in which \<open>G\<close> and \<open>H\<close> are not the identity
  (so that \<open>s \<cdot> G\<close> determines \<open>s\<close> modulo \<open>L\<close>), and whose encoding is canonical.
\<close>

definition curve_ok :: "'p curve \<Rightarrow> bool" where
  "curve_ok c \<longleftrightarrow>
     (\<forall>P Q R. Point_add c (Point_add c P Q) R = Point_add c P (Point_add c Q R)) \<and>
     (\<forall>P Q. Point_add c P Q = Point_add c Q P) \<and>
     (\<forall>P. Point_add c (Point_ZERO c) P = P) \<and>
     (\<forall>P s t. Point_scalar c P (s + t) = Point_add c (Point_scalar c P s) (Point_scalar c P t)) \<and>
     (\<forall>P. Point_scalar c P 0 = Point_ZERO c) \<and>
     (\<forall>P. Point_scalar c P 1 = P) \<and>
     (\<forall>P. Point_scalar c P L = Point_ZERO c) \<and>
     (\<forall>s t. Point_scalar c (G c) s = Point_scalar c (G c) t \<longrightarrow> s mod L = t mod L) \<and>
     (\<forall>s t. Point_scalar c (H c) s = Point_scalar c (H c) t \<longrightarrow> s mod L = t mod L) \<and>
     (\<forall>P. Point_fromBytes c (Point_toBytes c P) = Some P) \<and>
     (\<forall>b P. Point_fromBytes c b = Some P \<longrightarrow> Point_toBytes c P = b)"

subsection \<open>Pedersen commitments\<close>

definition commit :: "'p curve \<Rightarrow> int \<Rightarrow> int \<Rightarrow> 'p option" where
  "commit c v r =
     (case (if v = 0 then Some (Point_ZERO c) else multiply c (G c) v) of
        None \<Rightarrow> None
      | Some vPoint \<Rightarrow>
          (case (if r = 0 then Some (Point_ZERO c) else multiply c (H c) r) of
             None \<Rightarrow> None
           | Some rPoint \<Rightarrow> Some (Point_add c vPoint rPoint)))"

text \<open>The group element \<open>v \<cdot> G + r \<cdot> H\<close> that a commitment to \<open>(v, r)\<close> denotes.\<close>

definition pedersenPoint :: "'p curve \<Rightarrow> int \<Rightarrow> int \<Rightarrow> 'p" where
  "pedersenPoint c v r = Point_add c (Point_scalar c (G c) v) (Point_scalar c (H c) r)"

definition pointToHex :: "'p curve \<Rightarrow> 'p \<Rightarrow> string" where
  "pointToHex c P = hex_fromBytes (Point_toBytes c P)"

definition pointFromHex :: "'p curve \<Rightarrow> string \<Rightarrow> 'p option" where
  "pointFromHex c h = Point_fromBytes c (hex_toBytes h)"

text \<open>
  The commitment of the shared module \<^verbatim>\<open>shared/crypto\<close>: \<^verbatim>\<open>pedersen\<close> takes the blinding as
  bytes and reduces both scalars with \<^verbatim>\<open>modL\<close> before it multiplies, and returns the
  commitment in hex; \<^verbatim>\<open>ristrettoAdd\<close> adds two commitments given in hex.
\<close>

definition pedersen :: "'p curve \<Rightarrow> int \<Rightarrow> bytes \<Rightarrow> string option" where
  "pedersen c v r =
     (case StringToBigInt (''0x'' @ hex_fromBytes r) of
        None \<Rightarrow> None
      | Some n \<Rightarrow>
          (let rBig = modL n;
               vMod = modL v
           in case (if vMod = 0 then Some (Point_ZERO c) else multiply c (G c) vMod) of
                None \<Rightarrow> None
              | Some vPoint \<Rightarrow>
                  (case (if rBig = 0 then Some (Point_ZERO c) else multiply c (H c) rBig) of
                     None \<Rightarrow> None
                   | Some rPoint \<Rightarrow>
                       Some (hex_fromBytes (Point_toBytes c (Point_add c vPoint rPoint))))))"

definition ristrettoAdd :: "'p curve \<Rightarrow> string \<Rightarrow> string \<Rightarrow> string option" where
  "ristrettoAdd c aHex bHex =
     (case Point_fromBytes c (hex_toBytes aHex) of
        None \<Rightarrow> None
      | Some A \<Rightarrow>
          (case Point_fromBytes c (hex_toBytes bHex) of
             None \<Rightarrow> None
           | Some B \<Rightarrow> Some (hex_fromBytes (Point_toBytes c (Point_add c A B)))))"

subsection \<open>The platform, as a parameter\<close>

text \<open>
  A value that \<^verbatim>\<open>JSON.parse\<close> can put into a field, as far as \<^verbatim>\<open>BigInt(x)\<close> tells values
  apart: \<^verbatim>\<open>undefined\<close> (the field is missing), \<^verbatim>\<open>null\<close>, a boolean, a number, a string,
  and an object or array, which \<^verbatim>\<open>BigInt\<close> converts through its string form.
\<close>

datatype jsval =
  JUndefined | JNull | JBool bool | JNumber jsnumber | JString string | JObject string

fun BigInt_value :: "jsval \<Rightarrow> int option" where
  "BigInt_value JUndefined = None"
| "BigInt_value JNull = None"
| "BigInt_value (JBool b) = Some (if b then 1 else 0)"
| "BigInt_value (JNumber n) = BigInt_number n"
| "BigInt_value (JString s) = StringToBigInt s"
| "BigInt_value (JObject s) = StringToBigInt s"

text \<open>
  \<^verbatim>\<open>x25519.getPublicKey\<close> and \<^verbatim>\<open>x25519.getSharedSecret\<close> (which throws on a bad key);
  \<^verbatim>\<open>hkdf(sha256, ikm, salt, info, length)\<close>; AES-GCM of \<^verbatim>\<open>crypto.subtle\<close> on a raw key
  (\<^verbatim>\<open>importKey\<close> followed by \<^verbatim>\<open>encrypt\<close> or \<^verbatim>\<open>decrypt\<close>, \<open>None\<close> when either rejects);
  \<^verbatim>\<open>btoa\<close> and \<^verbatim>\<open>atob\<close>; and \<^verbatim>\<open>JSON.parse(new TextDecoder().decode(pt))\<close> followed by the
  destructuring \<^verbatim>\<open>const { v, r } = ...\<close>, which is \<open>None\<close> when \<^verbatim>\<open>JSON.parse\<close> throws or
  yields \<^verbatim>\<open>null\<close>.
\<close>

record platform =
  x25519_getPublicKey :: "bytes \<Rightarrow> bytes"
  x25519_getSharedSecret :: "bytes \<Rightarrow> bytes \<Rightarrow> bytes option"
  hkdf_sha256 :: "bytes \<Rightarrow> bytes \<Rightarrow> bytes \<Rightarrow> nat \<Rightarrow> bytes"
  aesGcm_encrypt :: "bytes \<Rightarrow> bytes \<Rightarrow> bytes \<Rightarrow> bytes option"
  aesGcm_decrypt :: "bytes \<Rightarrow> bytes \<Rightarrow> bytes \<Rightarrow> bytes option"
  btoa :: "string \<Rightarrow> string"
  atob :: "string \<Rightarrow> string option"
  JSON_parse_vr :: "bytes \<Rightarrow> (jsval \<times> jsval) option"

text \<open>
  \<^verbatim>\<open>JSON.stringify({ v: a, r: b })\<close> for two strings without a character that JSON escapes
  (the code passes decimal numerals).
\<close>

definition JSON_stringify_vr :: "string \<Rightarrow> string \<Rightarrow> string" where
  "JSON_stringify_vr a b =
     [CHR ''{'', CHR 0x22, CHR ''v'', CHR 0x22, CHR '':'', CHR 0x22] @ a @
     [CHR 0x22, CHR '','', CHR 0x22, CHR ''r'', CHR 0x22, CHR '':'', CHR 0x22] @ b @
     [CHR 0x22, CHR ''}'']"

definition isDecimalString :: "string \<Rightarrow> bool" where
  "isDecimalString s = list_all (\<lambda>ch. isDigitIn 10 ch \<or> ch = CHR ''-'') s"

text \<open>
  What the theorems assume of the platform: key agreement yields the same secret on both
  sides, public keys have 32 bytes, the derived key has the 32 bytes asked for, AES-GCM
  decrypts what it encrypted under the same key and nonce, \<^verbatim>\<open>atob\<close> inverts \<^verbatim>\<open>btoa\<close>,
  and \<^verbatim>\<open>JSON.parse\<close> reads back the two fields that \<^verbatim>\<open>JSON.stringify\<close> wrote.
\<close>

definition platform_ok :: "platform \<Rightarrow> bool" where
  "platform_ok p \<longleftrightarrow>
     (\<forall>a b. length a = 32 \<and> length b = 32 \<longrightarrow>
        x25519_getSharedSecret p a (x25519_getPublicKey p b) \<noteq> None \<and>
        x25519_getSharedSecret p a (x25519_getPublicKey p b) =
        x25519_getSharedSecret p b (x25519_getPublicKey p a)) \<and>
     (\<forall>a. length a = 32 \<longrightarrow> length (x25519_getPublicKey p a) = 32) \<and>
     (\<forall>k iv pt. length k = 32 \<and> length iv = 12 \<longrightarrow>
        (\<exists>ct. aesGcm_encrypt p k iv pt = Some ct \<and> aesGcm_decrypt p k iv ct = Some pt)) \<and>
     (\<forall>ikm salt info. length (hkdf_sha256 p ikm salt info 32) = 32) \<and>
     (\<forall>s. atob p (btoa p s) = Some s) \<and>
     (\<forall>a b. isDecimalString a \<and> isDecimalString b \<longrightarrow>
        JSON_parse_vr p (text_bytes (JSON_stringify_vr a b)) = Some (JString a, JString b))"

subsection \<open>Randomness\<close>

text \<open>
  \<^verbatim>\<open>crypto.getRandomValues\<close>: the generator is the sequence of bytes it is going to return;
  drawing \<open>len\<close> bytes returns them and the rest of the sequence.
\<close>

type_synonym rng = "nat \<Rightarrow> byte"

definition randomBytes :: "nat \<Rightarrow> rng \<Rightarrow> bytes \<times> rng" where
  "randomBytes len g = (map g [0..<len], (\<lambda>i. g (i + len)))"

subsection \<open>The helper \<^verbatim>\<open>b64\<close>\<close>

definition b64_enc :: "platform \<Rightarrow> bytes \<Rightarrow> string" where
  "b64_enc p b = btoa p (map (\<lambda>x. char_of (unat x)) b)"

definition b64_dec :: "platform \<Rightarrow> string \<Rightarrow> bytes option" where
  "b64_dec p s = map_option (map (\<lambda>ch. of_nat (charCode ch))) (atob p s)"

subsection \<open>ECIES: X25519, HKDF, AES-GCM\<close>

definition hkdfKey :: "platform \<Rightarrow> bytes \<Rightarrow> bytes" where
  "hkdfKey p ikm = hkdf_sha256 p ikm (text_bytes ''salt'') (text_bytes ''info'') 32"

text \<open>\<^verbatim>\<open>x25519.keygen()\<close>: 32 random bytes and their public key.\<close>

definition x25519_keygen :: "platform \<Rightarrow> rng \<Rightarrow> (bytes \<times> bytes) \<times> rng" where
  "x25519_keygen p g =
     (let (sk, g') = randomBytes 32 g in ((sk, x25519_getPublicKey p sk), g'))"

definition eciesEncrypt :: "platform \<Rightarrow> rng \<Rightarrow> bytes \<Rightarrow> bytes \<Rightarrow> (string \<times> rng) option" where
  "eciesEncrypt p g pub plaintext =
     (let ((esk, epk), g1) = x25519_keygen p g in
      case x25519_getSharedSecret p esk pub of
        None \<Rightarrow> None
      | Some shared \<Rightarrow>
          (let key = hkdfKey p shared;
               (nonce, g2) = randomBytes 12 g1
           in case aesGcm_encrypt p key nonce plaintext of
                None \<Rightarrow> None
              | Some ciphertext \<Rightarrow> Some (b64_enc p (epk @ nonce @ ciphertext), g2)))"

definition eciesDecrypt :: "platform \<Rightarrow> bytes \<Rightarrow> string \<Rightarrow> bytes option" where
  "eciesDecrypt p sk payloadB64 =
     (case b64_dec p payloadB64 of
        None \<Rightarrow> None
      | Some bs \<Rightarrow>
          (let epk = take 32 bs;
               nonce = take 12 (drop 32 bs);
               ciphertext = drop 44 bs
           in case x25519_getSharedSecret p sk epk of
                None \<Rightarrow> None
              | Some shared \<Rightarrow> aesGcm_decrypt p (hkdfKey p shared) nonce ciphertext))"

text \<open>
  The opening \<open>(v, r)\<close> as the code serialises it,
  \<^verbatim>\<open>text(JSON.stringify({ v: v.toString(), r: r.toString() }))\<close>, and as it reads it back,
  \<^verbatim>\<open>const { v, r } = JSON.parse(...); BigInt(v); BigInt(r)\<close>. The spec calls the two
  compositions \<^verbatim>\<open>encryptOpening\<close> and \<^verbatim>\<open>decryptOpening\<close>.
\<close>

definition openingPlaintext :: "int \<Rightarrow> int \<Rightarrow> bytes" where
  "openingPlaintext v r = text_bytes (JSON_stringify_vr (bigToDec v) (bigToDec r))"

definition encryptOpening :: "platform \<Rightarrow> rng \<Rightarrow> bytes \<Rightarrow> int \<times> int \<Rightarrow> (string \<times> rng) option" where
  "encryptOpening p g pub opening =
     eciesEncrypt p g pub (openingPlaintext (fst opening) (snd opening))"

definition decryptOpening :: "platform \<Rightarrow> bytes \<Rightarrow> string \<Rightarrow> (int \<times> int) option" where
  "decryptOpening p sk enc =
     (case eciesDecrypt p sk enc of
        None \<Rightarrow> None
      | Some pt \<Rightarrow>
          (case JSON_parse_vr p pt of
             None \<Rightarrow> None
           | Some (v, r) \<Rightarrow>
               (case BigInt_value v of
                  None \<Rightarrow> None
                | Some vBig \<Rightarrow>
                    (case BigInt_value r of
                       None \<Rightarrow> None
                     | Some rBig \<Rightarrow> Some (vBig, rBig)))))"

subsection \<open>The data of the ledger\<close>

record KeyBytes =
  publicKey :: bytes
  secretKey :: bytes

record KeyPair =
  id_kp :: string
  ed25519 :: KeyBytes
  x25519 :: KeyBytes

text \<open>
  The X25519 half of a key pair as \<^verbatim>\<open>generateKeyPair\<close> makes it (\<^verbatim>\<open>x25519.keygen()\<close>): a
  secret key of 32 bytes and its public key.
\<close>

definition validKeyPair :: "platform \<Rightarrow> KeyPair \<Rightarrow> bool" where
  "validKeyPair p kp \<longleftrightarrow>
     length (secretKey (x25519 kp)) = 32 \<and>
     publicKey (x25519 kp) = x25519_getPublicKey p (secretKey (x25519 kp))"

record LedgerEntry =
  holderId :: string
  commit_hex :: string
  openingEncrypted :: string

record LedgerTotal =
  total_T :: string
  total_R :: string
  commitSum :: string

text \<open>\<^verbatim>\<open>allowSelfUpdate\<close> is optional in the schema: \<open>None\<close> is \<^verbatim>\<open>undefined\<close>.\<close>

record LedgerState =
  version :: string
  entries :: "LedgerEntry list"
  total :: LedgerTotal
  allowSelfUpdate :: "bool option"

record MintAllocation =
  holder :: KeyPair
  amount :: jsnumber

record OtherEntry =
  other_holderId :: string
  other_commit :: string
  other_encrypted :: string

record UserView =
  myBalance :: "int option"
  myEntryValid :: bool
  publicTotal :: "int option"
  others :: "OtherEntry list"

datatype error = PermissionDenied | NotFound | DecryptionFailure | Thrown

subsection \<open>\<^verbatim>\<open>mintPoC\<close>\<close>

text \<open>
  The random blinding \<^verbatim>\<open>modL(BigInt("0x" + hex.fromBytes(randomBytes(32))))\<close>.
\<close>

definition drawBlinding :: "rng \<Rightarrow> (int \<times> rng) option" where
  "drawBlinding g =
     (let (rb, g1) = randomBytes 32 g in
      case StringToBigInt (''0x'' @ hex_fromBytes rb) of
        None \<Rightarrow> None
      | Some n \<Rightarrow> Some (modL n, g1))"

text \<open>
  The loop of \<^verbatim>\<open>mintPoC\<close> over the allocations; its state is \<^verbatim>\<open>entries\<close>, \<^verbatim>\<open>T\<close>,
  \<^verbatim>\<open>Rsum\<close>, \<^verbatim>\<open>Csum\<close> and the generator. \<open>None\<close>: an exception left the loop.
\<close>

fun mint_loop ::
  "'p curve \<Rightarrow> platform \<Rightarrow> MintAllocation list \<Rightarrow> LedgerEntry list \<times> int \<times> int \<times> 'p \<Rightarrow> rng \<Rightarrow>
   (LedgerEntry list \<times> int \<times> int \<times> 'p) option" where
  "mint_loop c p [] st g = Some st"
| "mint_loop c p (a # allocs) (es, T, Rsum, Csum) g =
     (case BigInt_number (amount a) of
        None \<Rightarrow> None
      | Some v \<Rightarrow>
          (case drawBlinding g of
             None \<Rightarrow> None
           | Some (r, g1) \<Rightarrow>
               (case commit c v r of
                  None \<Rightarrow> None
                | Some C \<Rightarrow>
                    (case eciesEncrypt p g1 (publicKey (x25519 (holder a))) (openingPlaintext v r) of
                       None \<Rightarrow> None
                     | Some (enc, g2) \<Rightarrow>
                         mint_loop c p allocs
                           (es @ [\<lparr>holderId = id_kp (holder a), commit_hex = pointToHex c C,
                                   openingEncrypted = enc\<rparr>],
                            T + v, modL (Rsum + r), Point_add c Csum C) g2))))"

definition mintPoC ::
  "'p curve \<Rightarrow> platform \<Rightarrow> rng \<Rightarrow> MintAllocation list \<Rightarrow> bool \<Rightarrow> error + LedgerState" where
  "mintPoC c p g allocs allowSelf =
     (case mint_loop c p allocs ([], 0, 0, Point_ZERO c) g of
        None \<Rightarrow> Inl Thrown
      | Some (es, T, Rsum, Csum) \<Rightarrow>
          Inr \<lparr>version = ''1'', entries = es,
               total = \<lparr>total_T = bigToDec T, total_R = bigToDec Rsum,
                        commitSum = pointToHex c Csum\<rparr>,
               allowSelfUpdate = Some allowSelf\<rparr>)"

subsection \<open>\<^verbatim>\<open>verifyTotal\<close> and \<^verbatim>\<open>verifyOpening\<close>\<close>

text \<open>
  \<^verbatim>\<open>entries.map((e) => pointFromHex(e.commit)).reduce((a, b) => a.add(b), Point.ZERO)\<close>:
  every commitment is decoded first (\<open>None\<close> when one of them throws), then summed from
  the left.
\<close>

definition sumCommits :: "'p curve \<Rightarrow> LedgerEntry list \<Rightarrow> 'p option" where
  "sumCommits c es =
     map_option (foldl (Point_add c) (Point_ZERO c))
       (those (map (\<lambda>e. pointFromHex c (commit_hex e)) es))"

text \<open>The body of the \<^verbatim>\<open>try\<close> of \<^verbatim>\<open>verifyTotal\<close>; \<open>None\<close>: it threw.\<close>

definition verifyTotal_try :: "'p curve \<Rightarrow> LedgerState \<Rightarrow> bool option" where
  "verifyTotal_try c ledger =
     (case decToBig (total_T (total ledger)) of
        None \<Rightarrow> None
      | Some T \<Rightarrow>
     (case decToBig (total_R (total ledger)) of
        None \<Rightarrow> None
      | Some R \<Rightarrow>
     (case pointFromHex c (commitSum (total ledger)) of
        None \<Rightarrow> None
      | Some claimed \<Rightarrow>
     (case sumCommits c (entries ledger) of
        None \<Rightarrow> None
      | Some recomputed \<Rightarrow>
          if claimed \<noteq> recomputed then Some False
          else
            (case multiply c (G c) T of
               None \<Rightarrow> None
             | Some gT \<Rightarrow>
            (case multiply c (H c) R of
               None \<Rightarrow> None
             | Some hR \<Rightarrow> Some (claimed = Point_add c gT hR)))))))"

definition verifyTotal :: "'p curve \<Rightarrow> LedgerState \<Rightarrow> bool" where
  "verifyTotal c ledger = (case verifyTotal_try c ledger of None \<Rightarrow> False | Some b \<Rightarrow> b)"

definition verifyOpening :: "'p curve \<Rightarrow> string \<Rightarrow> int \<Rightarrow> int \<Rightarrow> bool" where
  "verifyOpening c commitHex v r =
     (case pointFromHex c commitHex of
        None \<Rightarrow> False
      | Some claimed \<Rightarrow>
          (case commit c v r of
             None \<Rightarrow> False
           | Some recomputed \<Rightarrow> claimed = recomputed))"

subsection \<open>\<^verbatim>\<open>getUserView\<close>\<close>

text \<open>The character U+2026 that the previews end with, in UTF-8.\<close>

definition ellipsis :: string where
  "ellipsis = [CHR 0xE2, CHR 0x80, CHR 0xA6]"

text \<open>
  The only statement of \<^verbatim>\<open>getUserView\<close> outside a \<^verbatim>\<open>try\<close> that can throw is
  \<^verbatim>\<open>BigInt(ledger.total.T)\<close>; it is a branch of the model (\<open>Inl Thrown\<close>).
\<close>

definition getUserView :: "'p curve \<Rightarrow> platform \<Rightarrow> LedgerState \<Rightarrow> KeyPair \<Rightarrow> error + UserView" where
  "getUserView c p ledger me =
     (let mine = find (\<lambda>e. holderId e = id_kp me) (entries ledger);
          (bal, valid) =
            (case mine of
               None \<Rightarrow> (None, True)
             | Some m \<Rightarrow>
                 (case decryptOpening p (secretKey (x25519 me)) (openingEncrypted m) of
                    None \<Rightarrow> (None, False)
                  | Some (vBig, rBig) \<Rightarrow> (Some vBig, verifyOpening c (commit_hex m) vBig rBig)));
          totalOk = verifyTotal c ledger;
          os = map (\<lambda>e. \<lparr>other_holderId = holderId e,
                          other_commit = take 20 (commit_hex e) @ ellipsis,
                          other_encrypted = take 20 (openingEncrypted e) @ ellipsis\<rparr>)
                   (filter (\<lambda>e. holderId e \<noteq> id_kp me) (entries ledger))
      in if totalOk then
           (case StringToBigInt (total_T (total ledger)) of
              None \<Rightarrow> Inl Thrown
            | Some t \<Rightarrow>
                Inr \<lparr>myBalance = bal, myEntryValid = valid, publicTotal = Some t, others = os\<rparr>)
         else Inr \<lparr>myBalance = bal, myEntryValid = valid, publicTotal = None, others = os\<rparr>)"

subsection \<open>\<^verbatim>\<open>updateOwnEntry\<close>\<close>

text \<open>\<^verbatim>\<open>findIndex\<close>: the first index whose element satisfies the predicate; \<open>None\<close> is \<open>-1\<close>.\<close>

fun findIndex :: "('a \<Rightarrow> bool) \<Rightarrow> 'a list \<Rightarrow> nat option" where
  "findIndex P [] = None"
| "findIndex P (x # xs) = (if P x then Some 0 else map_option Suc (findIndex P xs))"

text \<open>
  The three errors the code throws itself are \<open>PermissionDenied\<close> (\<^verbatim>\<open>Self-update is not
  allowed on this ledger\<close>), \<open>NotFound\<close> (\<^verbatim>\<open>You don't have an entry in this ledger\<close>) and
  \<open>DecryptionFailure\<close> (\<^verbatim>\<open>Failed to decrypt your existing entry\<close>); \<open>Thrown\<close> is any
  exception of the library or the platform that the code does not catch.
\<close>

definition updateOwnEntry ::
  "'p curve \<Rightarrow> platform \<Rightarrow> rng \<Rightarrow> LedgerState \<Rightarrow> KeyPair \<Rightarrow> jsnumber \<Rightarrow> error + LedgerState" where
  "updateOwnEntry c p g ledger me newAmount =
     (if allowSelfUpdate ledger \<noteq> Some True then Inl PermissionDenied
      else
     (case findIndex (\<lambda>e. holderId e = id_kp me) (entries ledger) of
        None \<Rightarrow> Inl NotFound
      | Some myIndex \<Rightarrow>
     (let myEntry = entries ledger ! myIndex in
      case decryptOpening p (secretKey (x25519 me)) (openingEncrypted myEntry) of
        None \<Rightarrow> Inl DecryptionFailure
      | Some (oldV, oldR) \<Rightarrow>
     (case BigInt_number newAmount of
        None \<Rightarrow> Inl Thrown
      | Some newV \<Rightarrow>
     (case drawBlinding g of
        None \<Rightarrow> Inl Thrown
      | Some (newR, g1) \<Rightarrow>
     (case commit c newV newR of
        None \<Rightarrow> Inl Thrown
      | Some newC \<Rightarrow>
     (case eciesEncrypt p g1 (publicKey (x25519 me)) (openingPlaintext newV newR) of
        None \<Rightarrow> Inl Thrown
      | Some (newEnc, g2) \<Rightarrow>
     (case decToBig (total_T (total ledger)) of
        None \<Rightarrow> Inl Thrown
      | Some oldT \<Rightarrow>
     (case decToBig (total_R (total ledger)) of
        None \<Rightarrow> Inl Thrown
      | Some oldRsum \<Rightarrow>
     (let newT = oldT - oldV + newV;
          newRsum = modL (oldRsum - oldR + newR);
          newEntries = (entries ledger)
            [myIndex := \<lparr>holderId = id_kp me, commit_hex = pointToHex c newC,
                         openingEncrypted = newEnc\<rparr>]
      in case sumCommits c newEntries of
           None \<Rightarrow> Inl Thrown
         | Some newCsum \<Rightarrow>
             Inr (ledger\<lparr>entries := newEntries,
                         total := \<lparr>total_T = bigToDec newT, total_R = bigToDec newRsum,
                                   commitSum = pointToHex c newCsum\<rparr>\<rparr>)))))))))))"

subsection \<open>\<^verbatim>\<open>updateOwnEntry\<close> on a store of arrays\<close>

text \<open>
  The one statement of \<^verbatim>\<open>updateOwnEntry\<close> that writes to an object is
  \<^verbatim>\<open>newEntries[myIndex] = {...}\<close>. To state that it does not write to the caller's ledger,
  the arrays of entries live in a store here: a ledger holds a reference to its array,
  \<^verbatim>\<open>[...ledger.entries]\<close> allocates a copy at a fresh reference, and the assignment writes
  into the array it is given. The other objects (the ledger, its total, the entries) are
  never assigned to by the code; they stay values.
\<close>

type_synonym store = "LedgerEntry list list"

record LedgerRef =
  version_r :: string
  entries_r :: nat
  total_r :: LedgerTotal
  allowSelfUpdate_r :: "bool option"

text \<open>The ledger that a reference denotes in a store.\<close>

definition deref :: "store \<Rightarrow> LedgerRef \<Rightarrow> LedgerState" where
  "deref st l =
     \<lparr>version = version_r l, entries = st ! entries_r l, total = total_r l,
      allowSelfUpdate = allowSelfUpdate_r l\<rparr>"

text \<open>\<^verbatim>\<open>[...xs]\<close>: a new array with the elements of the array at \<open>r\<close>.\<close>

definition spreadCopy :: "store \<Rightarrow> nat \<Rightarrow> nat \<times> store" where
  "spreadCopy st r = (length st, st @ [st ! r])"

text \<open>\<^verbatim>\<open>xs[i] = e\<close> on the array at \<open>r\<close>.\<close>

definition assignIndex :: "store \<Rightarrow> nat \<Rightarrow> nat \<Rightarrow> LedgerEntry \<Rightarrow> store" where
  "assignIndex st r i e = st[r := (st ! r)[i := e]]"

definition updateOwnEntry_store ::
  "'p curve \<Rightarrow> platform \<Rightarrow> rng \<Rightarrow> store \<Rightarrow> LedgerRef \<Rightarrow> KeyPair \<Rightarrow> jsnumber \<Rightarrow>
   error + (LedgerRef \<times> store)" where
  "updateOwnEntry_store c p g st ledger me newAmount =
     (if allowSelfUpdate_r ledger \<noteq> Some True then Inl PermissionDenied
      else
     (case findIndex (\<lambda>e. holderId e = id_kp me) (st ! entries_r ledger) of
        None \<Rightarrow> Inl NotFound
      | Some myIndex \<Rightarrow>
     (let myEntry = (st ! entries_r ledger) ! myIndex in
      case decryptOpening p (secretKey (x25519 me)) (openingEncrypted myEntry) of
        None \<Rightarrow> Inl DecryptionFailure
      | Some (oldV, oldR) \<Rightarrow>
     (case BigInt_number newAmount of
        None \<Rightarrow> Inl Thrown
      | Some newV \<Rightarrow>
     (case drawBlinding g of
        None \<Rightarrow> Inl Thrown
      | Some (newR, g1) \<Rightarrow>
     (case commit c newV newR of
        None \<Rightarrow> Inl Thrown
      | Some newC \<Rightarrow>
     (case eciesEncrypt p g1 (publicKey (x25519 me)) (openingPlaintext newV newR) of
        None \<Rightarrow> Inl Thrown
      | Some (newEnc, g2) \<Rightarrow>
     (case decToBig (total_T (total_r ledger)) of
        None \<Rightarrow> Inl Thrown
      | Some oldT \<Rightarrow>
     (case decToBig (total_R (total_r ledger)) of
        None \<Rightarrow> Inl Thrown
      | Some oldRsum \<Rightarrow>
     (let newT = oldT - oldV + newV;
          newRsum = modL (oldRsum - oldR + newR);
          (newEntries, st1) = spreadCopy st (entries_r ledger);
          st2 = assignIndex st1 newEntries myIndex
                  \<lparr>holderId = id_kp me, commit_hex = pointToHex c newC,
                   openingEncrypted = newEnc\<rparr>
      in case sumCommits c (st2 ! newEntries) of
           None \<Rightarrow> Inl Thrown
         | Some newCsum \<Rightarrow>
             Inr (ledger\<lparr>entries_r := newEntries,
                         total_r := \<lparr>total_T = bigToDec newT, total_R = bigToDec newRsum,
                                     commitSum = pointToHex c newCsum\<rparr>\<rparr>, st2)))))))))))"


subsection \<open>Tampering with one field\<close>

text \<open>
  The assignments that the tests use to tamper with a ledger, as functions:
  \<^verbatim>\<open>ledger.entries[i].commit = h\<close>, \<^verbatim>\<open>ledger.total.T = t\<close>, \<^verbatim>\<open>ledger.total.R = r\<close>,
  \<^verbatim>\<open>ledger.total.commitSum = h\<close>. No other field changes.
\<close>

definition setCommit :: "LedgerState \<Rightarrow> nat \<Rightarrow> string \<Rightarrow> LedgerState" where
  "setCommit ledger i h =
     ledger\<lparr>entries := (entries ledger)[i := (entries ledger ! i)\<lparr>commit_hex := h\<rparr>]\<rparr>"

definition setT :: "LedgerState \<Rightarrow> string \<Rightarrow> LedgerState" where
  "setT ledger t = ledger\<lparr>total := (total ledger)\<lparr>total_T := t\<rparr>\<rparr>"

definition setR :: "LedgerState \<Rightarrow> string \<Rightarrow> LedgerState" where
  "setR ledger r = ledger\<lparr>total := (total ledger)\<lparr>total_R := r\<rparr>\<rparr>"

definition setCommitSum :: "LedgerState \<Rightarrow> string \<Rightarrow> LedgerState" where
  "setCommitSum ledger h = ledger\<lparr>total := (total ledger)\<lparr>commitSum := h\<rparr>\<rparr>"

subsection \<open>An instance of the parameters\<close>

text \<open>
  The hypotheses \<open>curve_ok\<close> and \<open>platform_ok\<close> can be met: the cyclic group of the
  integers modulo \<open>L\<close> with the generators 1 and 2 and a little-endian encoding in 32
  bytes, and a platform without any secrecy (the public key is the secret key, the
  cipher text is the key followed by the plain text). The theorems are about every curve
  and platform that satisfy the hypotheses; this instance is where they are tried.
\<close>

type_synonym zl = "7237005577332262213973186563042994240857116359379907606001950938285454250989"

fun le_bytes :: "nat \<Rightarrow> int \<Rightarrow> bytes" where
  "le_bytes 0 x = []"
| "le_bytes (Suc n) x = word_of_int x # le_bytes n (x div 256)"

fun le_val :: "bytes \<Rightarrow> int" where
  "le_val [] = 0"
| "le_val (b # bs) = uint b + 256 * le_val bs"

definition Zcurve :: "zl curve" where
  "Zcurve =
     \<lparr>Point_ZERO = 0, Point_BASE = 1, Point_add = (\<lambda>P Q. P + Q),
      Point_scalar = (\<lambda>P s. of_int s * P),
      Point_toBytes = (\<lambda>P. le_bytes 32 (Rep_bit1 P)),
      Point_fromBytes =
        (\<lambda>b. if length b = 32 \<and> le_val b < L then Some (of_int (le_val b)) else None),
      hashToCurve = (\<lambda>_. 2)\<rparr>"

fun stripPrefix :: "string \<Rightarrow> string \<Rightarrow> string option" where
  "stripPrefix [] s = Some s"
| "stripPrefix (a # as) [] = None"
| "stripPrefix (a # as) (b # bs) = (if a = b then stripPrefix as bs else None)"

definition toy_JSON_parse_vr :: "bytes \<Rightarrow> (jsval \<times> jsval) option" where
  "toy_JSON_parse_vr bs =
     (let dq = CHR 0x22;
          s = map (\<lambda>x. char_of (unat x)) bs
      in case stripPrefix [CHR ''{'', dq, CHR ''v'', dq, CHR '':'', dq] s of
           None \<Rightarrow> None
         | Some s1 \<Rightarrow>
             (case stripPrefix [dq, CHR '','', dq, CHR ''r'', dq, CHR '':'', dq]
                     (dropWhile (\<lambda>ch. ch \<noteq> dq) s1) of
                None \<Rightarrow> None
              | Some s2 \<Rightarrow>
                  if dropWhile (\<lambda>ch. ch \<noteq> dq) s2 = [dq, CHR ''}'']
                  then Some (JString (takeWhile (\<lambda>ch. ch \<noteq> dq) s1),
                             JString (takeWhile (\<lambda>ch. ch \<noteq> dq) s2))
                  else None))"

definition toy_platform :: platform where
  "toy_platform =
     \<lparr>x25519_getPublicKey = (\<lambda>sk. sk),
      x25519_getSharedSecret = (\<lambda>sk pk. Some (map2 (\<lambda>a b. a + b) sk pk)),
      hkdf_sha256 = (\<lambda>ikm salt info n. take n (ikm @ replicate n 0)),
      aesGcm_encrypt = (\<lambda>k iv pt. Some (k @ pt)),
      aesGcm_decrypt =
        (\<lambda>k iv ct. if take (length k) ct = k then Some (drop (length k) ct) else None),
      btoa = (\<lambda>s. s),
      atob = (\<lambda>s. Some s),
      JSON_parse_vr = toy_JSON_parse_vr\<rparr>"

definition alice :: KeyPair where
  "alice = \<lparr>id_kp = ''alice'',
             ed25519 = \<lparr>publicKey = replicate 32 1, secretKey = replicate 32 1\<rparr>,
             x25519 = \<lparr>publicKey = replicate 32 7, secretKey = replicate 32 7\<rparr>\<rparr>"

definition bob :: KeyPair where
  "bob = \<lparr>id_kp = ''bob'',
           ed25519 = \<lparr>publicKey = replicate 32 2, secretKey = replicate 32 2\<rparr>,
           x25519 = \<lparr>publicKey = replicate 32 9, secretKey = replicate 32 9\<rparr>\<rparr>"

text \<open>A generator whose first 32 bytes are the scalar 1 and whose other bytes are 0.\<close>

definition rng0 :: rng where
  "rng0 = (\<lambda>i. if i = 31 then 1 else 0)"

text \<open>
  The ledgers minted in the instance for \<^verbatim>\<open>alice: 0\<close> and for \<^verbatim>\<open>alice: 200\<close> (minting
  succeeds for both, see \<open>ledger0_minted\<close> and \<open>ledger1_is_minted\<close>; the ledger without
  entries stands for a failure).
\<close>

definition minted :: "error + LedgerState \<Rightarrow> LedgerState" where
  "minted res =
     (case res of
        Inr ledger \<Rightarrow> ledger
      | Inl _ \<Rightarrow>
          \<lparr>version = ''1'', entries = [],
           total = \<lparr>total_T = ''0'', total_R = ''0'', commitSum = []\<rparr>,
           allowSelfUpdate = None\<rparr>)"

definition ledger0 :: LedgerState where
  "ledger0 =
     minted (mintPoC Zcurve toy_platform rng0 [\<lparr>holder = alice, amount = JSInteger 0\<rparr>] True)"

definition ledger1 :: LedgerState where
  "ledger1 =
     minted (mintPoC Zcurve toy_platform rng0 [\<lparr>holder = alice, amount = JSInteger 200\<rparr>] True)"

text \<open>
  \<open>ledger1\<close> after somebody has replaced alice's encrypted opening by an encryption, to
  her public key, of the opening \<open>(100, 1)\<close>, which is not the opening of her commitment.
\<close>

definition ledger2 :: LedgerState where
  "ledger2 =
     ledger1\<lparr>entries :=
       [(entries ledger1 ! 0)\<lparr>openingEncrypted :=
          (case encryptOpening toy_platform rng0 (publicKey (x25519 alice)) (100, 1) of
             None \<Rightarrow> []
           | Some (enc, _) \<Rightarrow> enc)\<rparr>]\<rparr>"

subsection \<open>Facts about the helpers\<close>

lemma L_pos: "0 < L"
  by (simp add: L_def)

lemma modL_eq_mod: "modL n = n mod L"
proof -
  have absL: "\<bar>L\<bar> = L" using L_pos by simp
  have nonneg: "\<And>k. \<not> k mod L < 0" using L_pos by (simp add: not_less)
  show ?thesis
  proof (cases "n < 0")
    case False
    then show ?thesis by (simp add: modL_def jsRem_def sgn_if Let_def absL nonneg)
  next
    case True
    show ?thesis
    proof (cases "(- n) mod L = 0")
      case z: True
      then have "n mod L = 0" by (metis dvd_minus_iff mod_eq_0_iff_dvd)
      with True z show ?thesis by (simp add: modL_def jsRem_def sgn_if Let_def absL)
    next
      case nz: False
      have "0 \<le> (- n) mod L" using L_pos by simp
      with nz have pos: "0 < (- n) mod L" by simp
      have "n mod L = L - (- n) mod L"
        using nz L_pos by (metis minus_minus zmod_zminus1_eq_if)
      with True pos show ?thesis by (simp add: modL_def jsRem_def sgn_if Let_def absL)
    qed
  qed
qed

lemma modL_range: "0 \<le> modL n \<and> modL n < L"
  using L_pos by (simp add: modL_eq_mod)

lemma less16_cases: "d < 16 \<Longrightarrow> d \<in> {0,1,2,3,4,5,6,7,8,9,10,11,12,13,14,15::nat}"
  by (simp, arith)

lemma digitOf_hexDigit: "d < 16 \<Longrightarrow> digitOf (hexDigit d) = Some d"
  by (drule less16_cases) (auto simp: hexDigit_def digitOf_def charCode_def)

lemma hexDigit_not_ws: "d < 16 \<Longrightarrow> \<not> isWhiteSpace (hexDigit d)"
  by (drule less16_cases) (auto simp: hexDigit_def isWhiteSpace_def charCode_def)

lemma hexDigit_not_special:
  "d < 16 \<Longrightarrow> hexDigit d \<notin> {CHR ''-'', CHR ''+'', CHR ''x'', CHR ''X''}"
  by (drule less16_cases) (auto simp: hexDigit_def)

lemma isDigitIn_hexDigit: "d < r \<Longrightarrow> r \<le> 16 \<Longrightarrow> isDigitIn r (hexDigit d)"
  by (simp add: isDigitIn_def digitOf_hexDigit)

lemma parseInt16_hex_pair:
  assumes "d1 < 16" "d2 < 16"
  shows "parseInt16 [hexDigit d1, hexDigit d2] = Some (int (d1 * 16 + d2))"
  using hexDigit_not_ws[OF assms(1)] hexDigit_not_special[OF assms(1)] hexDigit_not_special[OF assms(2)]
    isDigitIn_hexDigit[OF assms(1)] isDigitIn_hexDigit[OF assms(2)]
  by (simp add: parseInt16_def Let_def digitsVal_def digitVal_def digitOf_hexDigit assms)

lemma toUint8_byteToHex: "toUint8 (parseInt16 (byteToHex b)) = b"
proof -
  have a: "unat b div 16 < 16" using unsigned_less[of b, where 'a=nat] by simp
  have c: "unat b mod 16 < 16" by simp
  have "unat b div 16 * 16 + unat b mod 16 = unat b" by simp
  then show ?thesis
    by (simp add: byteToHex_def parseInt16_hex_pair[OF a c] toUint8_def del: of_nat_add of_nat_mult)
qed

lemma hex_roundtrip: "hex_toBytes (hex_fromBytes b) = b"
proof (induction b)
  case Nil
  then show ?case by (simp add: hex_fromBytes_def)
next
  case (Cons x xs)
  have "hex_fromBytes (x # xs) = hexDigit (unat x div 16) # hexDigit (unat x mod 16) # hex_fromBytes xs"
    by (simp add: hex_fromBytes_def byteToHex_def)
  then show ?case using Cons toUint8_byteToHex[of x] by (simp add: byteToHex_def)
qed

lemma less10_cases: "d < 10 \<Longrightarrow> d \<in> {0,1,2,3,4,5,6,7,8,9::nat}"
  by (simp, arith)

lemma hexDigit_not_prefix_letter:
  "d < 16 \<Longrightarrow> hexDigit d \<notin> {CHR ''o'', CHR ''O'', CHR ''B''}"
  by (drule less16_cases) (auto simp: hexDigit_def)

lemma hexDigit_not_b: "d < 10 \<Longrightarrow> hexDigit d \<noteq> CHR ''b''"
  by (drule less10_cases) (auto simp: hexDigit_def)

lemma trimWS_id: "s \<noteq> [] \<Longrightarrow> \<not> isWhiteSpace (hd s) \<Longrightarrow> \<not> isWhiteSpace (last s) \<Longrightarrow> trimWS s = s"
proof -
  assume a: "s \<noteq> []" "\<not> isWhiteSpace (hd s)" "\<not> isWhiteSpace (last s)"
  then have "dropWhile isWhiteSpace s = s" by (cases s) auto
  moreover have "dropWhile isWhiteSpace (rev s) = rev s"
    using a by (cases "rev s") (auto simp: hd_rev)
  ultimately show ?thesis by (simp add: trimWS_def)
qed

lemma natToDec_digits: "set (natToDec n) \<subseteq> hexDigit ` {0..<10}"
proof (induction n rule: natToDec.induct)
  case (1 n)
  show ?case
  proof (cases "n < 10")
    case True
    then show ?thesis by (subst natToDec.simps) auto
  next
    case False
    have "n mod 10 \<in> {0..<10}" by simp
    with False 1 show ?thesis by (subst natToDec.simps) (auto simp del: atLeastLessThan_iff)
  qed
qed

lemma natToDec_nonempty: "natToDec n \<noteq> []"
  by (subst natToDec.simps) simp

lemma digitVal_hexDigit: "d < 16 \<Longrightarrow> digitVal (hexDigit d) = d"
  by (simp add: digitVal_def digitOf_hexDigit)

lemma digitsVal_snoc: "digitsVal r (ds @ [ch]) = digitsVal r ds * r + digitVal ch"
  by (simp add: digitsVal_def)

lemma digitsVal_natToDec: "digitsVal 10 (natToDec n) = n"
proof (induction n rule: natToDec.induct)
  case (1 n)
  show ?case
  proof (cases "n < 10")
    case True
    then show ?thesis by (subst natToDec.simps) (simp add: digitsVal_def digitVal_hexDigit)
  next
    case False
    with 1 show ?thesis
      by (subst natToDec.simps) (simp add: digitsVal_snoc digitVal_hexDigit)
  qed
qed

lemma natToDec_allDigits: "allDigits 10 (natToDec n)"
proof -
  have "\<And>ch. ch \<in> set (natToDec n) \<Longrightarrow> isDigitIn 10 ch"
    using natToDec_digits[of n] by (auto simp: isDigitIn_hexDigit)
  then show ?thesis by (simp add: allDigits_def natToDec_nonempty list_all_iff)
qed

lemma natToDec_char:
  assumes "ch \<in> set (natToDec n)"
  shows "\<not> isWhiteSpace ch" "ch \<notin> {CHR ''-'', CHR ''+'', CHR ''x'', CHR ''X'', CHR ''o'', CHR ''O'', CHR ''b'', CHR ''B''}"
proof -
  from assms natToDec_digits[of n] obtain d where d: "d < 10" "ch = hexDigit d" by auto
  then have d16: "d < 16" by simp
  show "\<not> isWhiteSpace ch" using d16 d by (simp add: hexDigit_not_ws)
  show "ch \<notin> {CHR ''-'', CHR ''+'', CHR ''x'', CHR ''X'', CHR ''o'', CHR ''O'', CHR ''b'', CHR ''B''}"
    using hexDigit_not_special[OF d16] hexDigit_not_prefix_letter[OF d16] hexDigit_not_b[OF d(1)] d
    by simp
qed

lemma StringToBigInt_natToDec: "StringToBigInt (natToDec n) = Some (int n)"
proof -
  let ?s = "natToDec n"
  have ne: "?s \<noteq> []" by (rule natToDec_nonempty)
  then have hd_in: "hd ?s \<in> set ?s" and last_in: "last ?s \<in> set ?s" by simp_all
  have trim: "trimWS ?s = ?s"
    using ne natToDec_char(1)[OF hd_in] natToDec_char(1)[OF last_in] by (rule trimWS_id)
  have nopre: "\<not> hasPrefix0 lo up ?s" if "lo \<in> {CHR ''x'', CHR ''o'', CHR ''b''}" "up \<in> {CHR ''X'', CHR ''O'', CHR ''B''}" for lo up
  proof (cases ?s)
    case Nil then show ?thesis by (simp add: hasPrefix0_def)
  next
    case (Cons a t)
    show ?thesis
    proof (cases t)
      case Nil with Cons show ?thesis by (simp add: hasPrefix0_def)
    next
      case (Cons b u)
      with \<open>?s = a # t\<close> have "b \<in> set ?s" by simp
      from natToDec_char(2)[OF this] that Cons \<open>?s = a # t\<close> show ?thesis
        by (auto simp: hasPrefix0_def)
    qed
  qed
  have hdok: "hd ?s \<noteq> CHR ''-''" "hd ?s \<noteq> CHR ''+''" using natToDec_char(2)[OF hd_in] by simp_all
  show ?thesis
    using ne by (simp add: StringToBigInt_def trim nopre hdok natToDec_allDigits digitsVal_natToDec Let_def)
qed

lemma StringToBigInt_neg_natToDec: "StringToBigInt (CHR ''-'' # natToDec n) = Some (- int n)"
proof -
  let ?s = "CHR ''-'' # natToDec n"
  have ne: "natToDec n \<noteq> []" by (rule natToDec_nonempty)
  then have last_in: "last (natToDec n) \<in> set (natToDec n)" by simp
  have "\<not> isWhiteSpace (CHR ''-'')" by (simp add: isWhiteSpace_def charCode_def)
  then have trim: "trimWS ?s = ?s"
    using ne natToDec_char(1)[OF last_in] by (intro trimWS_id) simp_all
  show ?thesis
    by (simp add: StringToBigInt_def trim hasPrefix0_def natToDec_allDigits digitsVal_natToDec Let_def
        split: list.splits)
qed

lemma decToBig_bigToDec: "decToBig (bigToDec n) = Some n"
  by (simp add: decToBig_def bigToDec_def StringToBigInt_natToDec StringToBigInt_neg_natToDec)

lemma hex_fromBytes_chars: "set (hex_fromBytes b) \<subseteq> hexDigit ` {0..<16}"
proof (induction b)
  case Nil then show ?case by (simp add: hex_fromBytes_def)
next
  case (Cons x xs)
  have "unat x div 16 \<in> {0..<16}" using unsigned_less[of x, where 'a=nat] by simp
  moreover have "unat x mod 16 \<in> {0..<16}" by simp
  moreover have "hex_fromBytes (x # xs) = hexDigit (unat x div 16) # hexDigit (unat x mod 16) # hex_fromBytes xs"
    by (simp add: hex_fromBytes_def byteToHex_def)
  ultimately show ?case using Cons by (simp del: atLeastLessThan_iff)
qed

lemma StringToBigInt_0x_hex:
  assumes "b \<noteq> []"
  shows "StringToBigInt (''0x'' @ hex_fromBytes b) = Some (int (digitsVal 16 (hex_fromBytes b)))"
proof -
  let ?h = "hex_fromBytes b"
  have ne: "?h \<noteq> []" using assms by (cases b) (simp_all add: hex_fromBytes_def byteToHex_def)
  then have "last ?h \<in> set ?h" by simp
  then obtain d where "d < 16" "last ?h = hexDigit d" using hex_fromBytes_chars[of b] by auto
  then have lw: "\<not> isWhiteSpace (last ?h)" by (simp add: hexDigit_not_ws)
  have "\<not> isWhiteSpace (CHR ''0'')" by (simp add: isWhiteSpace_def charCode_def)
  then have trim: "trimWS (''0x'' @ ?h) = ''0x'' @ ?h"
    using ne lw by (intro trimWS_id) simp_all
  have "\<And>ch. ch \<in> set ?h \<Longrightarrow> isDigitIn 16 ch"
    using hex_fromBytes_chars[of b] by (auto simp: isDigitIn_hexDigit)
  then have ad: "allDigits 16 ?h" using ne by (simp add: allDigits_def list_all_iff)
  show ?thesis using trim ad by (simp add: StringToBigInt_def hasPrefix0_def Let_def)
qed

subsection \<open>The group and the commitments\<close>

lemma add_assoc: "curve_ok c \<Longrightarrow> Point_add c (Point_add c P Q) R = Point_add c P (Point_add c Q R)"
  unfolding curve_ok_def by blast

lemma add_commute: "curve_ok c \<Longrightarrow> Point_add c P Q = Point_add c Q P"
  unfolding curve_ok_def by blast

lemma add_left_commute:
  assumes ok: "curve_ok c"
  shows "Point_add c P (Point_add c Q R) = Point_add c Q (Point_add c P R)"
proof -
  have "Point_add c P (Point_add c Q R) = Point_add c (Point_add c P Q) R"
    by (simp only: add_assoc[OF ok])
  also have "\<dots> = Point_add c (Point_add c Q P) R" by (simp only: add_commute[OF ok, of P Q])
  finally show ?thesis by (simp only: add_assoc[OF ok])
qed

lemma add_zero_left: "curve_ok c \<Longrightarrow> Point_add c (Point_ZERO c) P = P"
  unfolding curve_ok_def by blast

lemma add_zero_right: "curve_ok c \<Longrightarrow> Point_add c P (Point_ZERO c) = P"
  using add_commute[of c P "Point_ZERO c"] add_zero_left[of c P] by simp

lemma scalar_add:
  "curve_ok c \<Longrightarrow> Point_scalar c P (s + t) = Point_add c (Point_scalar c P s) (Point_scalar c P t)"
  unfolding curve_ok_def by blast

lemma scalar_0: "curve_ok c \<Longrightarrow> Point_scalar c P 0 = Point_ZERO c"
  unfolding curve_ok_def by blast

lemma scalar_1: "curve_ok c \<Longrightarrow> Point_scalar c P 1 = P"
  unfolding curve_ok_def by blast

lemma scalar_L: "curve_ok c \<Longrightarrow> Point_scalar c P L = Point_ZERO c"
  unfolding curve_ok_def by blast

lemma scalar_G_inj: "curve_ok c \<Longrightarrow> Point_scalar c (G c) s = Point_scalar c (G c) t \<Longrightarrow> s mod L = t mod L"
  unfolding curve_ok_def by blast

lemma scalar_H_inj: "curve_ok c \<Longrightarrow> Point_scalar c (H c) s = Point_scalar c (H c) t \<Longrightarrow> s mod L = t mod L"
  unfolding curve_ok_def by blast

lemma fromBytes_toBytes: "curve_ok c \<Longrightarrow> Point_fromBytes c (Point_toBytes c P) = Some P"
  unfolding curve_ok_def by blast

lemma toBytes_fromBytes: "curve_ok c \<Longrightarrow> Point_fromBytes c b = Some P \<Longrightarrow> Point_toBytes c P = b"
  unfolding curve_ok_def by blast

lemma add_neg: "curve_ok c \<Longrightarrow> Point_add c P (Point_scalar c P (- 1)) = Point_ZERO c"
proof -
  assume ok: "curve_ok c"
  have "Point_add c (Point_scalar c P 1) (Point_scalar c P (- 1)) = Point_scalar c P (1 + (- 1))"
    by (simp only: scalar_add[OF ok])
  then show ?thesis by (simp add: scalar_1[OF ok] scalar_0[OF ok])
qed

lemma add_cancel_left:
  assumes ok: "curve_ok c" and eq: "Point_add c P Q = Point_add c P R"
  shows "Q = R"
proof -
  let ?n = "Point_scalar c P (- 1)"
  have "Point_add c ?n (Point_add c P Q) = Point_add c ?n (Point_add c P R)" using eq by simp
  then have "Point_add c (Point_add c P ?n) Q = Point_add c (Point_add c P ?n) R"
    by (simp only: add_assoc[OF ok] add_left_commute[OF ok, of ?n])
  then show ?thesis by (simp only: add_neg[OF ok] add_zero_left[OF ok])
qed

lemma add_cancel_right:
  assumes ok: "curve_ok c" and eq: "Point_add c Q P = Point_add c R P"
  shows "Q = R"
proof -
  from eq have "Point_add c P Q = Point_add c P R" by (simp only: add_commute[OF ok, of P])
  then show ?thesis by (rule add_cancel_left[OF ok])
qed

lemma scalar_L_mult: "curve_ok c \<Longrightarrow> Point_scalar c P (L * k) = Point_ZERO c"
proof (induction k rule: int_induct[where k = 0])
  case base then show ?case by (simp add: scalar_0)
next
  case (step1 i)
  have "L * (i + 1) = L * i + L" by (simp add: algebra_simps)
  then show ?case using step1 by (simp add: scalar_add scalar_L add_zero_left)
next
  case (step2 i)
  have "Point_scalar c P (L * (i - 1) + L) = Point_scalar c P (L * i)" by (simp add: algebra_simps)
  then have "Point_add c (Point_scalar c P (L * (i - 1))) (Point_ZERO c) = Point_ZERO c"
    using step2 by (simp add: scalar_add scalar_L)
  then show ?case using step2 by (simp add: add_zero_right)
qed

lemma scalar_mod: "curve_ok c \<Longrightarrow> Point_scalar c P (s mod L) = Point_scalar c P s"
proof -
  assume ok: "curve_ok c"
  have "Point_scalar c P s = Point_scalar c P (s mod L + L * (s div L))" by simp
  also have "\<dots> = Point_scalar c P (s mod L)"
    by (simp only: scalar_add[OF ok] scalar_L_mult[OF ok] add_zero_right[OF ok])
  finally show ?thesis by simp
qed

lemma multiply_Some: "1 \<le> s \<Longrightarrow> s < L \<Longrightarrow> multiply c P s = Some (Point_scalar c P s)"
  by (simp add: multiply_def)

lemma multiply_eq_Some_iff: "multiply c P s = Some Q \<longleftrightarrow> 1 \<le> s \<and> s < L \<and> Q = Point_scalar c P s"
  by (auto simp: multiply_def)

lemma multiply_None_iff: "multiply c P s = None \<longleftrightarrow> \<not> (1 \<le> s \<and> s < L)"
  by (auto simp: multiply_def)

lemma commit_eq_Some_iff:
  assumes ok: "curve_ok c"
  shows "commit c v r = Some C \<longleftrightarrow> 0 \<le> v \<and> v < L \<and> 0 \<le> r \<and> r < L \<and> C = pedersenPoint c v r"
proof -
  have v: "(if v = 0 then Some (Point_ZERO c) else multiply c (G c) v) =
           (if 0 \<le> v \<and> v < L then Some (Point_scalar c (G c) v) else None)"
    using L_pos by (auto simp: multiply_def scalar_0[OF ok])
  have r: "(if r = 0 then Some (Point_ZERO c) else multiply c (H c) r) =
           (if 0 \<le> r \<and> r < L then Some (Point_scalar c (H c) r) else None)"
    using L_pos by (auto simp: multiply_def scalar_0[OF ok])
  show ?thesis unfolding commit_def v r pedersenPoint_def by auto
qed

lemma commit_in_range:
  "curve_ok c \<Longrightarrow> 0 \<le> v \<Longrightarrow> v < L \<Longrightarrow> 0 \<le> r \<Longrightarrow> r < L \<Longrightarrow> commit c v r = Some (pedersenPoint c v r)"
  by (simp add: commit_eq_Some_iff)

lemma commit_None_iff:
  "curve_ok c \<Longrightarrow> commit c v r = None \<longleftrightarrow> \<not> (0 \<le> v \<and> v < L \<and> 0 \<le> r \<and> r < L)"
  using commit_eq_Some_iff[of c v r] by (cases "commit c v r") auto

lemma pedersenPoint_add:
  assumes ok: "curve_ok c"
  shows "Point_add c (pedersenPoint c v1 r1) (pedersenPoint c v2 r2) = pedersenPoint c (v1 + v2) (r1 + r2)"
  unfolding pedersenPoint_def
  by (simp only: scalar_add[OF ok] add_assoc[OF ok] add_left_commute[OF ok, of "Point_scalar c (H c) r1"])

lemma pedersenPoint_mod:
  "curve_ok c \<Longrightarrow> pedersenPoint c v (r mod L) = pedersenPoint c v r"
  "curve_ok c \<Longrightarrow> pedersenPoint c (v mod L) r = pedersenPoint c v r"
  by (simp_all add: pedersenPoint_def scalar_mod)

lemma pedersenPoint_0: "curve_ok c \<Longrightarrow> pedersenPoint c 0 0 = Point_ZERO c"
  by (simp add: pedersenPoint_def scalar_0 add_zero_left)

lemma pedersenPoint_inj_v:
  assumes ok: "curve_ok c" and eq: "pedersenPoint c v r = pedersenPoint c v' r"
  shows "v mod L = v' mod L"
proof -
  from eq have "Point_scalar c (G c) v = Point_scalar c (G c) v'"
    unfolding pedersenPoint_def by (rule add_cancel_right[OF ok])
  then show ?thesis by (rule scalar_G_inj[OF ok])
qed

lemma pedersenPoint_inj_r:
  assumes ok: "curve_ok c" and eq: "pedersenPoint c v r = pedersenPoint c v r'"
  shows "r mod L = r' mod L"
proof -
  from eq have "Point_scalar c (H c) r = Point_scalar c (H c) r'"
    unfolding pedersenPoint_def by (rule add_cancel_left[OF ok])
  then show ?thesis by (rule scalar_H_inj[OF ok])
qed

lemma pointFromHex_pointToHex: "curve_ok c \<Longrightarrow> pointFromHex c (pointToHex c P) = Some P"
  by (simp add: pointFromHex_def pointToHex_def hex_roundtrip fromBytes_toBytes)

lemma pedersen_value:
  assumes ok: "curve_ok c" and n: "StringToBigInt (''0x'' @ hex_fromBytes r) = Some n"
  shows "pedersen c v r = Some (pointToHex c (pedersenPoint c v n))"
proof -
  have "commit c (modL v) (modL n) = Some (pedersenPoint c (modL v) (modL n))"
    using modL_range[of v] modL_range[of n] by (intro commit_in_range[OF ok]) simp_all
  also have "pedersenPoint c (modL v) (modL n) = pedersenPoint c v n"
    by (simp only: modL_eq_mod pedersenPoint_mod[OF ok])
  finally have "commit c (modL v) (modL n) = Some (pedersenPoint c v n)" .
  moreover have "pedersen c v r = map_option (pointToHex c) (commit c (modL v) (modL n))"
    using n by (simp add: pedersen_def commit_def Let_def pointToHex_def split: option.splits)
  ultimately show ?thesis by simp
qed

text \<open>
  The homomorphism for \<^verbatim>\<open>pedersen\<close>, which reduces its scalars: it holds for all integers
  \<open>v1\<close>, \<open>v2\<close> and all blindings of at least one byte.
\<close>

lemma pedersen_homomorphic:
  assumes ok: "curve_ok c"
    and r: "StringToBigInt (''0x'' @ hex_fromBytes r1) = Some n1"
      "StringToBigInt (''0x'' @ hex_fromBytes r2) = Some n2"
      "StringToBigInt (''0x'' @ hex_fromBytes r3) = Some n3"
    and sum: "n3 mod L = (n1 + n2) mod L"
  shows "\<exists>h1 h2. pedersen c v1 r1 = Some h1 \<and> pedersen c v2 r2 = Some h2 \<and>
                 ristrettoAdd c h1 h2 = pedersen c (v1 + v2) r3"
proof -
  have "pedersenPoint c (v1 + v2) n3 = pedersenPoint c (v1 + v2) (n3 mod L)"
    by (simp only: pedersenPoint_mod(1)[OF ok])
  also have "\<dots> = pedersenPoint c (v1 + v2) (n1 + n2)"
    by (simp only: sum pedersenPoint_mod(1)[OF ok])
  also have "\<dots> = Point_add c (pedersenPoint c v1 n1) (pedersenPoint c v2 n2)"
    by (rule pedersenPoint_add[OF ok, symmetric])
  finally have "ristrettoAdd c (pointToHex c (pedersenPoint c v1 n1)) (pointToHex c (pedersenPoint c v2 n2)) =
        Some (pointToHex c (pedersenPoint c (v1 + v2) n3))"
    by (simp add: ristrettoAdd_def pointToHex_def hex_roundtrip fromBytes_toBytes[OF ok])
  then show ?thesis
    by (simp add: pedersen_value[OF ok r(1)] pedersen_value[OF ok r(2)] pedersen_value[OF ok r(3)])
qed

subsection \<open>The instance satisfies the hypotheses\<close>

lemma le_val_le_bytes: "0 \<le> x \<Longrightarrow> x < 256 ^ n \<Longrightarrow> le_val (le_bytes n x) = x"
proof (induction n arbitrary: x)
  case 0 then show ?case by simp
next
  case (Suc n)
  have "x < 256 * 256 ^ n" using Suc.prems by simp
  then have "x div 256 < 256 ^ n" by linarith
  moreover have "0 \<le> x div 256" using Suc.prems by simp
  ultimately have "le_val (le_bytes n (x div 256)) = x div 256" by (rule Suc.IH[rotated])
  then show ?case by (simp add: uint_word_of_int)
qed

lemma le_bytes_le_val: "le_bytes (length bs) (le_val bs) = bs"
proof (induction bs)
  case Nil then show ?case by simp
next
  case (Cons b bs)
  have "(uint b + 256 * le_val bs) div 256 = le_val bs"
    using uint_lt2p[of b] uint_ge_0[of b] by simp
  moreover have "(word_of_int (uint b + 256 * le_val bs) :: byte) = b"
  proof (rule word_uint_eqI)
    have "uint (word_of_int (uint b + 256 * le_val bs) :: byte) = (uint b + 256 * le_val bs) mod 256"
      by (simp only: uint_word_of_int take_bit_eq_mod) simp
    also have "\<dots> = uint b" using uint_lt2p[of b] uint_ge_0[of b] by simp
    finally show "uint (word_of_int (uint b + 256 * le_val bs) :: byte) = uint b" .
  qed
  ultimately show ?case using Cons by simp
qed

lemma le_val_nonneg: "0 \<le> le_val bs"
  by (induction bs) simp_all

lemma length_le_bytes: "length (le_bytes n x) = n"
  by (induction n arbitrary: x) simp_all

lemma card_zl: "int CARD(zl) = L"
  by (simp add: L_def)

lemma zl_Rep_of_int_mod: "Rep_bit1 (of_int s :: zl) = s mod L"
proof -
  have "Rep_bit1 (of_int s :: zl) = s mod int CARD(zl)"
    by (simp only: bit1.of_int_eq bit1.Rep_Abs_mod)
  then show ?thesis by (simp only: card_zl)
qed

lemma zl_of_int_eq_iff: "(of_int s :: zl) = of_int t \<longleftrightarrow> s mod L = t mod L"
  by (simp only: bit1.Rep_inject_sym[of "of_int s :: zl"] zl_Rep_of_int_mod)

lemma zl_of_int_L: "(of_int L :: zl) = 0"
  using zl_of_int_eq_iff[of L 0] by simp

lemma zl_Rep_range: "0 \<le> Rep_bit1 (P :: zl) \<and> Rep_bit1 P < L"
proof -
  have "Rep_bit1 P mod int CARD(zl) = Rep_bit1 P" by (rule bit1.Rep_mod)
  then have "Rep_bit1 P mod L = Rep_bit1 P" by (simp only: card_zl)
  moreover have "0 \<le> Rep_bit1 P mod L" "Rep_bit1 P mod L < L" using L_pos by simp_all
  ultimately show ?thesis by simp
qed

lemma zl_of_int_Rep: "of_int (Rep_bit1 (P :: zl)) = P"
  by (simp only: bit1.of_int_eq bit1.Rep_mod bit1.Rep_inverse)

lemma zl_Rep_of_int: "0 \<le> v \<Longrightarrow> v < L \<Longrightarrow> Rep_bit1 (of_int v :: zl) = v"
  by (simp add: zl_Rep_of_int_mod)

lemma L_less_256_32: "L < 256 ^ 32"
  by (simp add: L_def)

lemma L_odd: "odd L"
  by (simp add: L_def)

lemma Zcurve_sel:
  "Point_ZERO Zcurve = 0" "Point_BASE Zcurve = 1" "Point_add Zcurve = (\<lambda>P Q. P + Q)"
  "Point_scalar Zcurve = (\<lambda>P s. of_int s * P)"
  "Point_toBytes Zcurve = (\<lambda>P. le_bytes 32 (Rep_bit1 P))"
  "Point_fromBytes Zcurve =
     (\<lambda>b. if length b = 32 \<and> le_val b < L then Some (of_int (le_val b)) else None)"
  "hashToCurve Zcurve = (\<lambda>_. 2)"
  by (simp_all add: Zcurve_def)

lemma curve_ok_Zcurve: "curve_ok Zcurve"
proof -
  have g: "s mod L = t mod L" if "(of_int s :: zl) * 1 = of_int t * 1" for s t
    using that by (simp add: zl_of_int_eq_iff)
  have h: "s mod L = t mod L" if "(of_int s :: zl) * 2 = of_int t * 2" for s t
  proof -
    have "(of_int (s * 2) :: zl) = of_int (t * 2)" using that by simp
    then have "(s * 2) mod L = (t * 2) mod L" by (simp only: zl_of_int_eq_iff)
    then have "L dvd (s * 2 - t * 2)" by (simp add: mod_eq_dvd_iff)
    then have "L dvd (s - t) * 2" by (simp add: algebra_simps)
    moreover have "coprime L 2" using L_odd by simp
    ultimately have "L dvd (s - t)" using coprime_dvd_mult_left_iff[of L 2 "s - t"] by simp
    then show ?thesis by (simp add: mod_eq_dvd_iff)
  qed
  have enc: "(if length (le_bytes 32 (Rep_bit1 P)) = 32 \<and> le_val (le_bytes 32 (Rep_bit1 P)) < L
              then Some (of_int (le_val (le_bytes 32 (Rep_bit1 P)))) else None) = Some P" for P :: zl
  proof -
    have "le_val (le_bytes 32 (Rep_bit1 P)) = Rep_bit1 P"
      using zl_Rep_range[of P] L_less_256_32 by (intro le_val_le_bytes) simp_all
    then show ?thesis using zl_Rep_range[of P] by (simp only: length_le_bytes zl_of_int_Rep) simp
  qed
  have dec: "le_bytes 32 (Rep_bit1 P) = b"
    if "(if length b = 32 \<and> le_val b < L then Some (of_int (le_val b)) else None) = Some P" for b and P :: zl
  proof -
    from that have l: "length b = 32" and v: "le_val b < L" and P: "P = of_int (le_val b)"
      by (auto split: if_splits)
    have "Rep_bit1 P = le_val b" unfolding P using v le_val_nonneg by (rule zl_Rep_of_int[rotated])
    then show ?thesis using le_bytes_le_val[of b] l by simp
  qed
  show ?thesis
    unfolding curve_ok_def G_def H_def Zcurve_sel
  proof (intro conjI allI impI)
    fix P Q R :: zl and s t :: int and b :: bytes
    show "P + Q + R = P + (Q + R)" by (simp only: add.assoc)
    show "P + Q = Q + P" by (simp only: add.commute)
    show "0 + P = P" by simp
    show "of_int (s + t) * P = of_int s * P + of_int t * P" by (simp only: of_int_add distrib_right)
    show "of_int 0 * P = 0" by simp
    show "of_int 1 * P = P" by simp
    show "of_int L * P = 0" by (simp only: zl_of_int_L mult_zero_left)
    show "s mod L = t mod L" if "(of_int s :: zl) * 1 = of_int t * 1" using that by (rule g)
    show "s mod L = t mod L" if "(of_int s :: zl) * 2 = of_int t * 2" using that by (rule h)
    show "(if length (le_bytes 32 (Rep_bit1 P)) = 32 \<and> le_val (le_bytes 32 (Rep_bit1 P)) < L
              then Some (of_int (le_val (le_bytes 32 (Rep_bit1 P)))) else None) = Some P" by (rule enc)
    show "le_bytes 32 (Rep_bit1 P) = b"
      if "(if length b = 32 \<and> le_val b < L then Some (of_int (le_val b)) else None) = Some P"
      using that by (rule dec)
  qed
qed

lemma char_of_text_byte: "char_of (unat (of_nat (charCode ch) :: byte)) = ch"
proof -
  have "charCode ch < 256" unfolding charCode_def by (rule nat_of_char_less_256)
  then have "unat (of_nat (charCode ch) :: byte) = charCode ch"
    by (simp add: unat_of_nat)
  then show ?thesis by (simp add: charCode_def)
qed

lemma chars_of_text_bytes: "map (\<lambda>x. char_of (unat x)) (text_bytes s) = s"
  by (induction s) (simp_all add: text_bytes_def char_of_text_byte)

lemma text_byte_of_char: "(of_nat (charCode (char_of (unat (x :: byte)))) :: byte) = x"
proof -
  have "unat x < 256" using unsigned_less[of x, where 'a=nat] by simp
  then have "charCode (char_of (unat x)) = unat x" by (simp add: charCode_def)
  then show ?thesis by simp
qed

lemma map2_commute: "(\<And>x y. f x y = f y x) \<Longrightarrow> map2 f a b = map2 f b a"
proof (induction a arbitrary: b)
  case Nil then show ?case by simp
next
  case (Cons x xs) then show ?case by (cases b) simp_all
qed

lemma dq_not_decimal: "isDecimalString a \<Longrightarrow> CHR 0x22 \<notin> set a"
  by (auto simp: isDecimalString_def list_all_iff isDigitIn_def digitOf_def charCode_def)

lemma takeWhile_until: "q \<notin> set a \<Longrightarrow> takeWhile (\<lambda>ch. ch \<noteq> q) (a @ q # rest) = a"
  by (induction a) auto

lemma dropWhile_until: "q \<notin> set a \<Longrightarrow> dropWhile (\<lambda>ch. ch \<noteq> q) (a @ q # rest) = q # rest"
  by (induction a) auto

lemma toy_JSON_roundtrip:
  assumes "isDecimalString a" "isDecimalString b"
  shows "toy_JSON_parse_vr (text_bytes (JSON_stringify_vr a b)) = Some (JString a, JString b)"
proof -
  note qa = dq_not_decimal[OF assms(1)] and qb = dq_not_decimal[OF assms(2)]
  show ?thesis
    unfolding toy_JSON_parse_vr_def chars_of_text_bytes JSON_stringify_vr_def Let_def
    using takeWhile_until[OF qa] dropWhile_until[OF qa] takeWhile_until[OF qb] dropWhile_until[OF qb]
    by simp
qed

lemma toy_platform_sel:
  "x25519_getPublicKey toy_platform = (\<lambda>sk. sk)"
  "x25519_getSharedSecret toy_platform = (\<lambda>sk pk. Some (map2 (\<lambda>a b. a + b) sk pk))"
  "hkdf_sha256 toy_platform = (\<lambda>ikm salt info n. take n (ikm @ replicate n 0))"
  "aesGcm_encrypt toy_platform = (\<lambda>k iv pt. Some (k @ pt))"
  "aesGcm_decrypt toy_platform =
     (\<lambda>k iv ct. if take (length k) ct = k then Some (drop (length k) ct) else None)"
  "btoa toy_platform = (\<lambda>s. s)" "atob toy_platform = (\<lambda>s. Some s)"
  "JSON_parse_vr toy_platform = toy_JSON_parse_vr"
  by (simp_all add: toy_platform_def)

lemma platform_ok_toy: "platform_ok toy_platform"
  unfolding platform_ok_def toy_platform_sel
proof (intro conjI allI impI)
  fix a b :: bytes
  show "Some (map2 (\<lambda>a b. a + b) a b) \<noteq> None" by simp
  show "Some (map2 (\<lambda>a b. a + b) a b) = Some (map2 (\<lambda>a b. a + b) b a)"
    by (simp add: map2_commute[of "\<lambda>a b. a + b"] add.commute)
next
  fix a :: bytes assume "length a = 32" then show "length a = 32" .
next
  fix k iv pt :: bytes
  show "\<exists>ct. Some (k @ pt) = Some ct \<and>
     (if take (length k) ct = k then Some (drop (length k) ct) else None) = Some pt" by simp
next
  fix ikm salt info :: bytes
  show "length (take 32 (ikm @ replicate 32 0)) = 32" by simp
next
  fix s :: string show "Some s = Some s" ..
next
  fix a b assume "isDecimalString a \<and> isDecimalString b"
  then show "toy_JSON_parse_vr (text_bytes (JSON_stringify_vr a b)) = Some (JString a, JString b)"
    by (simp add: toy_JSON_roundtrip)
qed

subsection \<open>Encrypting and decrypting an opening\<close>

lemma dh_agree:
  "platform_ok p \<Longrightarrow> length a = 32 \<Longrightarrow> length b = 32 \<Longrightarrow>
   \<exists>shared. x25519_getSharedSecret p a (x25519_getPublicKey p b) = Some shared \<and>
            x25519_getSharedSecret p b (x25519_getPublicKey p a) = Some shared"
  unfolding platform_ok_def by (metis not_Some_eq)

lemma pub_length: "platform_ok p \<Longrightarrow> length a = 32 \<Longrightarrow> length (x25519_getPublicKey p a) = 32"
  unfolding platform_ok_def by blast

lemma aes_roundtrip:
  "platform_ok p \<Longrightarrow> length k = 32 \<Longrightarrow> length iv = 12 \<Longrightarrow>
   \<exists>ct. aesGcm_encrypt p k iv pt = Some ct \<and> aesGcm_decrypt p k iv ct = Some pt"
  unfolding platform_ok_def by blast

lemma hkdfKey_length: "platform_ok p \<Longrightarrow> length (hkdfKey p ikm) = 32"
  unfolding platform_ok_def hkdfKey_def by blast

lemma atob_btoa: "platform_ok p \<Longrightarrow> atob p (btoa p s) = Some s"
  unfolding platform_ok_def by blast

lemma JSON_roundtrip:
  "platform_ok p \<Longrightarrow> isDecimalString a \<Longrightarrow> isDecimalString b \<Longrightarrow>
   JSON_parse_vr p (text_bytes (JSON_stringify_vr a b)) = Some (JString a, JString b)"
  unfolding platform_ok_def by blast

lemma b64_roundtrip: "platform_ok p \<Longrightarrow> b64_dec p (b64_enc p bs) = Some bs"
proof -
  assume ok: "platform_ok p"
  have "map (\<lambda>ch. of_nat (charCode ch)) (map (\<lambda>x. char_of (unat x)) bs) = bs"
    by (induction bs) (simp_all add: text_byte_of_char)
  then show ?thesis by (simp add: b64_dec_def b64_enc_def atob_btoa[OF ok] comp_def)
qed

lemma randomBytes_eq: "randomBytes n g = (map g [0..<n], (\<lambda>i. g (i + n)))"
  by (simp add: randomBytes_def)

lemma ecies_roundtrip:
  assumes ok: "platform_ok p" and sk: "length sk = 32"
  shows "\<exists>enc g'. eciesEncrypt p g (x25519_getPublicKey p sk) pt = Some (enc, g') \<and>
                  eciesDecrypt p sk enc = Some pt"
proof -
  define esk where "esk = map g [0..<32]"
  define epk where "epk = x25519_getPublicKey p esk"
  define g1 where "g1 = (\<lambda>i. g (i + 32))"
  define nonce where "nonce = map g1 [0..<12]"
  have lesk: "length esk = 32" by (simp add: esk_def)
  have lepk: "length epk = 32" unfolding epk_def using ok lesk by (rule pub_length)
  have lnonce: "length nonce = 12" by (simp add: nonce_def)
  from dh_agree[OF ok lesk sk] obtain shared where
    s1: "x25519_getSharedSecret p esk (x25519_getPublicKey p sk) = Some shared" and
    s2: "x25519_getSharedSecret p sk epk = Some shared" by (auto simp: epk_def)
  from aes_roundtrip[OF ok hkdfKey_length[OF ok] lnonce] obtain ct where
    e: "aesGcm_encrypt p (hkdfKey p shared) nonce pt = Some ct" and
    d: "aesGcm_decrypt p (hkdfKey p shared) nonce ct = Some pt" by blast
  have enc: "eciesEncrypt p g (x25519_getPublicKey p sk) pt =
               Some (b64_enc p (epk @ nonce @ ct), (\<lambda>i. g1 (i + 12)))"
    using s1 e
    by (simp add: eciesEncrypt_def x25519_keygen_def randomBytes_eq
        esk_def[symmetric] epk_def[symmetric] g1_def[symmetric] nonce_def[symmetric])
  have dec: "eciesDecrypt p sk (b64_enc p (epk @ nonce @ ct)) = Some pt"
    using s2 d lepk lnonce
    by (simp add: eciesDecrypt_def b64_roundtrip[OF ok])
  from enc dec show ?thesis by blast
qed

lemma isDecimalString_bigToDec: "isDecimalString (bigToDec n)"
proof -
  have "list_all (isDigitIn 10) (natToDec k)" for k
    using natToDec_allDigits[of k] by (simp add: allDigits_def)
  then have "isDecimalString (natToDec k)" for k
    by (simp add: isDecimalString_def list_all_iff)
  then show ?thesis by (simp add: bigToDec_def isDecimalString_def)
qed

lemma StringToBigInt_bigToDec: "StringToBigInt (bigToDec n) = Some n"
  using decToBig_bigToDec[of n] by (simp add: decToBig_def)

lemma decryptOpening_plaintext:
  assumes ok: "platform_ok p" and d: "eciesDecrypt p sk enc = Some (openingPlaintext v r)"
  shows "decryptOpening p sk enc = Some (v, r)"
  using d
  by (simp add: decryptOpening_def openingPlaintext_def
      JSON_roundtrip[OF ok isDecimalString_bigToDec isDecimalString_bigToDec]
      StringToBigInt_bigToDec)

lemma opening_roundtrip:
  assumes ok: "platform_ok p" and sk: "length sk = 32"
  shows "\<exists>enc g'. eciesEncrypt p g (x25519_getPublicKey p sk) (openingPlaintext v r) = Some (enc, g') \<and>
                  decryptOpening p sk enc = Some (v, r)"
  using ecies_roundtrip[OF ok sk, of g "openingPlaintext v r"] decryptOpening_plaintext[OF ok]
  by blast

subsection \<open>Minting and verifying\<close>

lemma those_eq_Some_iff: "those xs = Some ys \<longleftrightarrow> xs = map Some ys"
proof (induction xs arbitrary: ys)
  case Nil then show ?case by auto
next
  case (Cons x xs) then show ?case by (cases x; cases ys) (auto split: option.splits)
qed

lemma sumCommits_eq_Some_iff:
  "sumCommits c es = Some S \<longleftrightarrow>
     (\<exists>pts. map (\<lambda>e. pointFromHex c (commit_hex e)) es = map Some pts \<and>
            S = foldl (Point_add c) (Point_ZERO c) pts)"
  by (auto simp: sumCommits_def those_eq_Some_iff)

lemma sumCommits_Nil: "sumCommits c [] = Some (Point_ZERO c)"
  by (simp add: sumCommits_def)

lemma sumCommits_snoc:
  assumes "sumCommits c es = Some S" and "pointFromHex c (commit_hex e) = Some C"
  shows "sumCommits c (es @ [e]) = Some (Point_add c S C)"
proof -
  from assms(1) obtain pts where
    pts: "map (\<lambda>e. pointFromHex c (commit_hex e)) es = map Some pts"
    and S: "S = foldl (Point_add c) (Point_ZERO c) pts"
    by (auto simp: sumCommits_eq_Some_iff)
  have "map (\<lambda>e. pointFromHex c (commit_hex e)) (es @ [e]) = map Some (pts @ [C])"
    using pts assms(2) by simp
  moreover have "Point_add c S C = foldl (Point_add c) (Point_ZERO c) (pts @ [C])"
    using S by simp
  ultimately show ?thesis unfolding sumCommits_eq_Some_iff by blast
qed

lemma verifyTotal_iff:
  "verifyTotal c ledger \<longleftrightarrow>
     (\<exists>T R S. decToBig (total_T (total ledger)) = Some T \<and>
              decToBig (total_R (total ledger)) = Some R \<and>
              pointFromHex c (commitSum (total ledger)) = Some S \<and>
              sumCommits c (entries ledger) = Some S \<and>
              1 \<le> T \<and> T < L \<and> 1 \<le> R \<and> R < L \<and> S = pedersenPoint c T R)"
  by (auto simp: verifyTotal_def verifyTotal_try_def multiply_def pedersenPoint_def
      split: option.splits if_splits)

lemma verifyTotal_zero_T:
  "decToBig (total_T (total ledger)) = Some 0 \<Longrightarrow> \<not> verifyTotal c ledger"
  by (simp add: verifyTotal_iff)

lemma drawBlinding_range: "drawBlinding g = Some (r, g1) \<Longrightarrow> 0 \<le> r \<and> r < L"
  using modL_range by (auto simp: drawBlinding_def randomBytes_eq split: option.splits)

lemma drawBlinding_Some: "\<exists>r g1. drawBlinding g = Some (r, g1)"
proof -
  have "map g [0..<32] \<noteq> []" by simp
  from StringToBigInt_0x_hex[OF this] show ?thesis
    by (simp add: drawBlinding_def randomBytes_eq)
qed

lemma mint_loop_step:
  assumes "mint_loop c p (a # allocs) (es, T, Rsum, Csum) g = Some res"
  obtains v r g1 C enc g2 where
    "amount a = JSInteger v" "drawBlinding g = Some (r, g1)" "commit c v r = Some C"
    "eciesEncrypt p g1 (publicKey (x25519 (holder a))) (openingPlaintext v r) = Some (enc, g2)"
    "mint_loop c p allocs
       (es @ [\<lparr>holderId = id_kp (holder a), commit_hex = pointToHex c C, openingEncrypted = enc\<rparr>],
        T + v, modL (Rsum + r), Point_add c Csum C) g2 = Some res"
proof (cases "amount a")
  case JSNonInteger
  with assms show ?thesis by simp
next
  case (JSInteger v)
  with assms show ?thesis
    by (auto split: option.splits intro: that)
qed

lemma mint_loop_invariant:
  assumes ok: "curve_ok c"
  shows "mint_loop c p allocs (es, T, Rsum, Csum) g = Some (es', T', Rsum', Csum') \<Longrightarrow>
         sumCommits c es = Some Csum \<Longrightarrow> Csum = pedersenPoint c T Rsum \<Longrightarrow>
         sumCommits c es' = Some Csum' \<and> Csum' = pedersenPoint c T' Rsum'"
proof (induction allocs arbitrary: es T Rsum Csum g)
  case Nil
  then show ?case by auto
next
  case (Cons a allocs)
  from Cons.prems(1) obtain v r and g1 :: rng and C enc g2 where
    c: "commit c v r = Some C" and
    rec: "mint_loop c p allocs
       (es @ [\<lparr>holderId = id_kp (holder a), commit_hex = pointToHex c C, openingEncrypted = enc\<rparr>],
        T + v, modL (Rsum + r), Point_add c Csum C) g2 = Some (es', T', Rsum', Csum')"
    by (rule mint_loop_step)
  from c have C: "C = pedersenPoint c v r" by (simp add: commit_eq_Some_iff[OF ok])
  have s: "sumCommits c (es @ [\<lparr>holderId = id_kp (holder a), commit_hex = pointToHex c C, openingEncrypted = enc\<rparr>])
            = Some (Point_add c Csum C)"
    using Cons.prems(2) by (rule sumCommits_snoc) (simp add: pointFromHex_pointToHex[OF ok])
  have "Point_add c Csum C = pedersenPoint c (T + v) (modL (Rsum + r))"
    unfolding C Cons.prems(3)
    by (simp only: pedersenPoint_add[OF ok] modL_eq_mod pedersenPoint_mod(1)[OF ok])
  with Cons.IH[OF rec s] show ?case by simp
qed

lemma mint_loop_zero_T:
  "mint_loop c p allocs (es, T, Rsum, Csum) g = Some (es', T', Rsum', Csum') \<Longrightarrow>
   list_all (\<lambda>a. amount a = JSInteger 0) allocs \<Longrightarrow> T' = T"
proof (induction allocs arbitrary: es T Rsum Csum g)
  case Nil
  then show ?case by simp
next
  case (Cons a allocs)
  from Cons.prems(1) obtain v r and g1 :: rng and C enc g2 where
    a: "amount a = JSInteger v" and
    rec: "mint_loop c p allocs
       (es @ [\<lparr>holderId = id_kp (holder a), commit_hex = pointToHex c C, openingEncrypted = enc\<rparr>],
        T + v, modL (Rsum + r), Point_add c Csum C) g2 = Some (es', T', Rsum', Csum')"
    by (rule mint_loop_step)
  from a Cons.prems(2) have "v = 0" by simp
  with Cons.IH[OF rec] Cons.prems(2) show ?case by simp
qed

lemma mintPoC_Inr:
  assumes "mintPoC c p g allocs allowSelf = Inr ledger"
  obtains es T Rsum Csum where
    "mint_loop c p allocs ([], 0, 0, Point_ZERO c) g = Some (es, T, Rsum, Csum)"
    "ledger = \<lparr>version = ''1'', entries = es,
               total = \<lparr>total_T = bigToDec T, total_R = bigToDec Rsum, commitSum = pointToHex c Csum\<rparr>,
               allowSelfUpdate = Some allowSelf\<rparr>"
  using assms by (auto simp: mintPoC_def split: option.splits)

lemma mintPoC_verifyTotal_iff:
  assumes ok: "curve_ok c" and m: "mintPoC c p g allocs allowSelf = Inr ledger"
  shows "verifyTotal c ledger \<longleftrightarrow>
           (\<exists>T R. decToBig (total_T (total ledger)) = Some T \<and> decToBig (total_R (total ledger)) = Some R \<and>
                  1 \<le> T \<and> T < L \<and> 1 \<le> R \<and> R < L)"
proof -
  from m obtain es T Rsum Csum where
    ml: "mint_loop c p allocs ([], 0, 0, Point_ZERO c) g = Some (es, T, Rsum, Csum)" and
    l: "ledger = \<lparr>version = ''1'', entries = es,
               total = \<lparr>total_T = bigToDec T, total_R = bigToDec Rsum, commitSum = pointToHex c Csum\<rparr>,
               allowSelfUpdate = Some allowSelf\<rparr>"
    by (rule mintPoC_Inr)
  have "sumCommits c es = Some Csum \<and> Csum = pedersenPoint c T Rsum"
    using ml sumCommits_Nil by (rule mint_loop_invariant[OF ok]) (simp add: pedersenPoint_0[OF ok])
  then show ?thesis
    by (auto simp: verifyTotal_iff l decToBig_bigToDec pointFromHex_pointToHex[OF ok])
qed

lemma mintPoC_single:
  assumes ok: "curve_ok c" and pok: "platform_ok p" and kp: "validKeyPair p kp"
    and v: "0 \<le> v" "v < L"
  obtains r g1 enc g2 where
    "drawBlinding g = Some (r, g1)"
    "eciesEncrypt p g1 (publicKey (x25519 kp)) (openingPlaintext v r) = Some (enc, g2)"
    "decryptOpening p (secretKey (x25519 kp)) enc = Some (v, r)"
    "mintPoC c p g [\<lparr>holder = kp, amount = JSInteger v\<rparr>] allowSelf =
       Inr \<lparr>version = ''1'',
            entries = [\<lparr>holderId = id_kp kp, commit_hex = pointToHex c (pedersenPoint c v r),
                        openingEncrypted = enc\<rparr>],
            total = \<lparr>total_T = bigToDec v, total_R = bigToDec r,
                     commitSum = pointToHex c (pedersenPoint c v r)\<rparr>,
            allowSelfUpdate = Some allowSelf\<rparr>"
proof -
  from drawBlinding_Some[of g] obtain r g1 where rs: "drawBlinding g = Some (r, g1)" by blast
  note rr = drawBlinding_range[OF rs]
  from kp have sk: "length (secretKey (x25519 kp)) = 32"
    and pk: "publicKey (x25519 kp) = x25519_getPublicKey p (secretKey (x25519 kp))"
    by (simp_all add: validKeyPair_def)
  from opening_roundtrip[OF pok sk, of g1 v r] obtain enc g2 where
    e: "eciesEncrypt p g1 (publicKey (x25519 kp)) (openingPlaintext v r) = Some (enc, g2)" and
    d: "decryptOpening p (secretKey (x25519 kp)) enc = Some (v, r)"
    unfolding pk by blast
  have cm: "commit c v r = Some (pedersenPoint c v r)"
    using v rr by (simp add: commit_in_range[OF ok])
  have "modL (0 + r) = r" using rr by (simp add: modL_eq_mod)
  then have "mintPoC c p g [\<lparr>holder = kp, amount = JSInteger v\<rparr>] allowSelf =
       Inr \<lparr>version = ''1'',
            entries = [\<lparr>holderId = id_kp kp, commit_hex = pointToHex c (pedersenPoint c v r),
                        openingEncrypted = enc\<rparr>],
            total = \<lparr>total_T = bigToDec v, total_R = bigToDec r,
                     commitSum = pointToHex c (pedersenPoint c v r)\<rparr>,
            allowSelfUpdate = Some allowSelf\<rparr>"
    using rs cm e by (simp add: mintPoC_def add_zero_left[OF ok])
  with rs e d show ?thesis by (rule that)
qed

lemma validKeyPair_alice: "validKeyPair toy_platform alice"
  by (simp add: validKeyPair_def alice_def toy_platform_sel)

lemma ledger0_minted:
  "mintPoC Zcurve toy_platform rng0 [\<lparr>holder = alice, amount = JSInteger 0\<rparr>] True = Inr ledger0"
proof -
  obtain r enc where
    "mintPoC Zcurve toy_platform rng0 [\<lparr>holder = alice, amount = JSInteger 0\<rparr>] True =
       Inr \<lparr>version = ''1'',
            entries = [\<lparr>holderId = id_kp alice, commit_hex = pointToHex Zcurve (pedersenPoint Zcurve 0 r),
                        openingEncrypted = enc\<rparr>],
            total = \<lparr>total_T = bigToDec 0, total_R = bigToDec r,
                     commitSum = pointToHex Zcurve (pedersenPoint Zcurve 0 r)\<rparr>,
            allowSelfUpdate = Some True\<rparr>"
    using mintPoC_single[OF curve_ok_Zcurve platform_ok_toy validKeyPair_alice, of 0 rng0 True] L_pos
    by (metis order_refl)
  then show ?thesis by (simp add: ledger0_def minted_def)
qed

subsection \<open>The view of a holder\<close>

lemma verifyTotal_T_parses:
  "verifyTotal c ledger \<Longrightarrow> \<exists>t. StringToBigInt (total_T (total ledger)) = Some t"
  by (auto simp: verifyTotal_iff decToBig_def)

lemma getUserView_result:
  "\<exists>view. getUserView c p ledger me = Inr view \<and>
     publicTotal view = (if verifyTotal c ledger then decToBig (total_T (total ledger)) else None) \<and>
     (myBalance view, myEntryValid view) =
       (case find (\<lambda>e. holderId e = id_kp me) (entries ledger) of
          None \<Rightarrow> (None, True)
        | Some m \<Rightarrow>
            (case decryptOpening p (secretKey (x25519 me)) (openingEncrypted m) of
               None \<Rightarrow> (None, False)
             | Some (vBig, rBig) \<Rightarrow> (Some vBig, verifyOpening c (commit_hex m) vBig rBig)))"
proof (cases "verifyTotal c ledger")
  case True
  from verifyTotal_T_parses[OF True] obtain t where "StringToBigInt (total_T (total ledger)) = Some t" ..
  with True show ?thesis
    by (simp add: getUserView_def Let_def decToBig_def split: prod.splits)
next
  case False
  then show ?thesis by (simp add: getUserView_def Let_def split: prod.splits)
qed


subsection \<open>Tampering with one field of a verified ledger\<close>

lemma foldl_add_shift:
  assumes ok: "curve_ok c"
  shows "foldl (Point_add c) (Point_add c a q) xs = Point_add c (foldl (Point_add c) a xs) q"
proof (induction xs arbitrary: a)
  case Nil then show ?case by simp
next
  case (Cons x xs)
  have "Point_add c (Point_add c a q) x = Point_add c (Point_add c a x) q"
    by (simp only: add_assoc[OF ok] add_commute[OF ok, of q x])
  then show ?case using Cons[of "Point_add c a x"] by simp
qed

lemma foldl_add_update:
  assumes ok: "curve_ok c"
  shows "i < length xs \<Longrightarrow>
         Point_add c (foldl (Point_add c) a (xs[i := q])) (xs ! i) =
         Point_add c (foldl (Point_add c) a xs) q"
proof (induction xs arbitrary: a i)
  case Nil then show ?case by simp
next
  case (Cons x xs)
  show ?case
  proof (cases i)
    case 0
    have "Point_add c (Point_add c (foldl (Point_add c) a xs) q) x =
          Point_add c (Point_add c (foldl (Point_add c) a xs) x) q"
      by (simp only: add_assoc[OF ok] add_commute[OF ok, of q x])
    with 0 show ?thesis by (simp add: foldl_add_shift[OF ok])
  next
    case (Suc j)
    with Cons.prems have "j < length xs" by simp
    from Cons.IH[OF this, of "Point_add c a x"] Suc show ?thesis by simp
  qed
qed

lemma sumCommits_update:
  assumes ok: "curve_ok c" and i: "i < length es"
    and s: "sumCommits c es = Some S" and s': "sumCommits c (es[i := e']) = Some S'"
  obtains P Q where "pointFromHex c (commit_hex (es ! i)) = Some P"
    "pointFromHex c (commit_hex e') = Some Q" "Point_add c S' P = Point_add c S Q"
proof -
  define f where "f = (\<lambda>e::LedgerEntry. pointFromHex c (commit_hex e))"
  from s obtain pts where pts: "map f es = map Some pts"
    and S: "S = foldl (Point_add c) (Point_ZERO c) pts"
    unfolding f_def by (auto simp: sumCommits_eq_Some_iff)
  from s' obtain pts' where pts': "map f (es[i := e']) = map Some pts'"
    and S': "S' = foldl (Point_add c) (Point_ZERO c) pts'"
    unfolding f_def by (auto simp: sumCommits_eq_Some_iff)
  have len: "length pts = length es"
    using arg_cong[OF pts, of length] by simp
  have len': "length pts' = length es"
    using arg_cong[OF pts', of length] by simp
  have "map f es ! i = map Some pts ! i" by (simp only: pts)
  then have P: "f (es ! i) = Some (pts ! i)" using i len by simp
  have "map f (es[i := e']) ! i = map Some pts' ! i" by (simp only: pts')
  then have Q: "f e' = Some (pts' ! i)" using i len' by simp
  have "map Some pts' = map f (es[i := e'])" by (simp only: pts')
  also have "\<dots> = (map f es)[i := f e']" by (rule map_update)
  also have "\<dots> = (map Some pts)[i := Some (pts' ! i)]" by (simp only: pts Q)
  also have "\<dots> = map Some (pts[i := pts' ! i])" by (rule map_update[symmetric])
  finally have "pts' = pts[i := pts' ! i]" by (rule map_injective) simp
  then have "S' = foldl (Point_add c) (Point_ZERO c) (pts[i := pts' ! i])" using S' by simp
  moreover have "i < length pts" using i len by simp
  ultimately have "Point_add c S' (pts ! i) = Point_add c S (pts' ! i)"
    unfolding S by (simp only: foldl_add_update[OF ok])
  with P Q show ?thesis unfolding f_def by (rule that)
qed

lemma findIndex_Some:
  "findIndex P xs = Some i \<Longrightarrow> i < length xs \<and> P (xs ! i)"
proof (induction xs arbitrary: i)
  case Nil then show ?case by simp
next
  case (Cons x xs) then show ?case by (auto split: if_splits)
qed

lemma findIndex_None_iff: "findIndex P xs = None \<longleftrightarrow> (\<forall>x \<in> set xs. \<not> P x)"
  by (induction xs) auto

lemma find_at_findIndex: "findIndex P xs = Some i \<Longrightarrow> find P xs = Some (xs ! i)"
proof (induction xs arbitrary: i)
  case Nil then show ?case by simp
next
  case (Cons x xs) then show ?case by (auto split: if_splits)
qed

lemma findIndex_update: "findIndex P xs = Some i \<Longrightarrow> P y \<Longrightarrow> findIndex P (xs[i := y]) = Some i"
proof (induction xs arbitrary: i)
  case Nil then show ?case by simp
next
  case (Cons x xs) then show ?case by (auto split: if_splits)
qed

lemma setCommit_simps:
  "entries (setCommit ledger i h) = (entries ledger)[i := (entries ledger ! i)\<lparr>commit_hex := h\<rparr>]"
  "total (setCommit ledger i h) = total ledger"
  by (simp_all add: setCommit_def)

lemma total_set_simps:
  "entries (setT ledger t) = entries ledger" "entries (setR ledger r) = entries ledger"
  "entries (setCommitSum ledger h) = entries ledger"
  "total (setT ledger t) = (total ledger)\<lparr>total_T := t\<rparr>"
  "total (setR ledger r) = (total ledger)\<lparr>total_R := r\<rparr>"
  "total (setCommitSum ledger h) = (total ledger)\<lparr>commitSum := h\<rparr>"
  by (simp_all add: setT_def setR_def setCommitSum_def)

lemma tamper_commit_detected:
  assumes ok: "curve_ok c" and v: "verifyTotal c ledger" and i: "i < length (entries ledger)"
    and ne: "pointFromHex c h \<noteq> pointFromHex c (commit_hex (entries ledger ! i))"
  shows "\<not> verifyTotal c (setCommit ledger i h)"
proof
  assume v': "verifyTotal c (setCommit ledger i h)"
  from v obtain S where S: "pointFromHex c (commitSum (total ledger)) = Some S"
    "sumCommits c (entries ledger) = Some S" by (auto simp: verifyTotal_iff)
  from v' S(1) have S': "sumCommits c ((entries ledger)[i := (entries ledger ! i)\<lparr>commit_hex := h\<rparr>]) = Some S"
    by (auto simp: verifyTotal_iff setCommit_simps)
  from sumCommits_update[OF ok i S(2) S'] obtain P Q where
    "pointFromHex c (commit_hex (entries ledger ! i)) = Some P"
    "pointFromHex c (commit_hex ((entries ledger ! i)\<lparr>commit_hex := h\<rparr>)) = Some Q"
    "Point_add c S P = Point_add c S Q" by blast
  moreover from this(3) have "P = Q" by (rule add_cancel_left[OF ok])
  ultimately show False using ne by simp
qed

lemma verifyTotal_setT_iff:
  "verifyTotal c (setT ledger t) \<longleftrightarrow>
     (\<exists>T R S. decToBig t = Some T \<and>
              decToBig (total_R (total ledger)) = Some R \<and>
              pointFromHex c (commitSum (total ledger)) = Some S \<and>
              sumCommits c (entries ledger) = Some S \<and>
              1 \<le> T \<and> T < L \<and> 1 \<le> R \<and> R < L \<and> S = pedersenPoint c T R)"
  unfolding verifyTotal_iff total_set_simps by simp

lemma verifyTotal_setR_iff:
  "verifyTotal c (setR ledger r) \<longleftrightarrow>
     (\<exists>T R S. decToBig (total_T (total ledger)) = Some T \<and>
              decToBig r = Some R \<and>
              pointFromHex c (commitSum (total ledger)) = Some S \<and>
              sumCommits c (entries ledger) = Some S \<and>
              1 \<le> T \<and> T < L \<and> 1 \<le> R \<and> R < L \<and> S = pedersenPoint c T R)"
  unfolding verifyTotal_iff total_set_simps by simp

lemma tamper_T_detected:
  assumes ok: "curve_ok c" and v: "verifyTotal c ledger"
    and ne: "decToBig t \<noteq> decToBig (total_T (total ledger))"
  shows "\<not> verifyTotal c (setT ledger t)"
proof
  assume v': "verifyTotal c (setT ledger t)"
  from v obtain T R S where a: "decToBig (total_T (total ledger)) = Some T"
    "decToBig (total_R (total ledger)) = Some R" "pointFromHex c (commitSum (total ledger)) = Some S"
    "1 \<le> T" "T < L" "S = pedersenPoint c T R" unfolding verifyTotal_iff by blast
  from v' obtain T' R' S' where b: "decToBig t = Some T'"
    "decToBig (total_R (total ledger)) = Some R'" "pointFromHex c (commitSum (total ledger)) = Some S'"
    "1 \<le> T'" "T' < L" "S' = pedersenPoint c T' R'" unfolding verifyTotal_setT_iff by blast
  from a(2) b(2) have R: "R' = R" by simp
  from a(3) b(3) have S: "S' = S" by simp
  from a(6) b(6) have "pedersenPoint c T R = pedersenPoint c T' R" unfolding R S by simp
  then have "T mod L = T' mod L" by (rule pedersenPoint_inj_v[OF ok])
  then have "T = T'" using a(4,5) b(4,5) by simp
  with a(1) b(1) ne show False by simp
qed

lemma tamper_R_detected:
  assumes ok: "curve_ok c" and v: "verifyTotal c ledger"
    and ne: "decToBig r \<noteq> decToBig (total_R (total ledger))"
  shows "\<not> verifyTotal c (setR ledger r)"
proof
  assume v': "verifyTotal c (setR ledger r)"
  from v obtain T R S where a: "decToBig (total_T (total ledger)) = Some T"
    "decToBig (total_R (total ledger)) = Some R" "pointFromHex c (commitSum (total ledger)) = Some S"
    "1 \<le> R" "R < L" "S = pedersenPoint c T R" unfolding verifyTotal_iff by blast
  from v' obtain T' R' S' where b: "decToBig (total_T (total ledger)) = Some T'"
    "decToBig r = Some R'" "pointFromHex c (commitSum (total ledger)) = Some S'"
    "1 \<le> R'" "R' < L" "S' = pedersenPoint c T' R'" unfolding verifyTotal_setR_iff by blast
  from a(1) b(1) have T: "T' = T" by simp
  from a(3) b(3) have S: "S' = S" by simp
  from a(6) b(6) have "pedersenPoint c T R = pedersenPoint c T R'" unfolding T S by simp
  then have "R mod L = R' mod L" by (rule pedersenPoint_inj_r[OF ok])
  then have "R = R'" using a(4,5) b(4,5) by simp
  with a(2) b(2) ne show False by simp
qed

lemma tamper_commitSum_detected:
  assumes v: "verifyTotal c ledger"
    and ne: "pointFromHex c h \<noteq> pointFromHex c (commitSum (total ledger))"
  shows "\<not> verifyTotal c (setCommitSum ledger h)"
  using assms by (auto simp: verifyTotal_iff total_set_simps)

lemma publicTotal_None:
  "\<not> verifyTotal c ledger \<Longrightarrow>
   \<exists>view. getUserView c p ledger me = Inr view \<and> publicTotal view = None"
  using getUserView_result[of c p ledger me] by auto

subsection \<open>The ledger minted in the instance\<close>

lemma drawBlinding_rng0: "\<exists>g1. drawBlinding rng0 = Some (1, g1)"
proof -
  have "StringToBigInt (''0x'' @ hex_fromBytes (map rng0 [0..<32])) = Some 1"
    by code_simp
  moreover have "modL 1 = 1" by (simp add: modL_eq_mod L_def)
  ultimately show ?thesis by (simp add: drawBlinding_def randomBytes_eq)
qed

lemma ledger1_minted:
  obtains enc where
    "mintPoC Zcurve toy_platform rng0 [\<lparr>holder = alice, amount = JSInteger 200\<rparr>] True = Inr ledger1"
    "ledger1 = \<lparr>version = ''1'',
                entries = [\<lparr>holderId = ''alice'',
                            commit_hex = pointToHex Zcurve (pedersenPoint Zcurve 200 1),
                            openingEncrypted = enc\<rparr>],
                total = \<lparr>total_T = bigToDec 200, total_R = bigToDec 1,
                         commitSum = pointToHex Zcurve (pedersenPoint Zcurve 200 1)\<rparr>,
                allowSelfUpdate = Some True\<rparr>"
    "decryptOpening toy_platform (secretKey (x25519 alice)) enc = Some (200, 1)"
proof -
  have v: "(0::int) \<le> 200" "(200::int) < L" by (simp_all add: L_def)
  obtain r enc and g1 g2 :: rng where
    rs: "drawBlinding rng0 = Some (r, g1)" and
    d: "decryptOpening toy_platform (secretKey (x25519 alice)) enc = Some (200, r)" and
    m: "mintPoC Zcurve toy_platform rng0 [\<lparr>holder = alice, amount = JSInteger 200\<rparr>] True =
       Inr \<lparr>version = ''1'',
            entries = [\<lparr>holderId = id_kp alice, commit_hex = pointToHex Zcurve (pedersenPoint Zcurve 200 r),
                        openingEncrypted = enc\<rparr>],
            total = \<lparr>total_T = bigToDec 200, total_R = bigToDec r,
                     commitSum = pointToHex Zcurve (pedersenPoint Zcurve 200 r)\<rparr>,
            allowSelfUpdate = Some True\<rparr>"
    using mintPoC_single[OF curve_ok_Zcurve platform_ok_toy validKeyPair_alice v, of rng0 True]
    by metis
  from rs drawBlinding_rng0 have r: "r = 1" by auto
  have id: "id_kp alice = ''alice''" by (simp add: alice_def)
  show ?thesis
    using m d unfolding r id by (intro that[of enc]) (simp_all add: ledger1_def minted_def)
qed

lemma ledger1_entries:
  "length (entries ledger1) = 1" "holderId (entries ledger1 ! 0) = ''alice''"
  "commit_hex (entries ledger1 ! 0) = pointToHex Zcurve (pedersenPoint Zcurve 200 1)"
  "decryptOpening toy_platform (secretKey (x25519 alice)) (openingEncrypted (entries ledger1 ! 0)) = Some (200, 1)"
  "total_T (total ledger1) = bigToDec 200" "total_R (total ledger1) = bigToDec 1"
  "commitSum (total ledger1) = pointToHex Zcurve (pedersenPoint Zcurve 200 1)"
  "allowSelfUpdate ledger1 = Some True"
proof -
  obtain enc where
    l: "ledger1 = \<lparr>version = ''1'',
                entries = [\<lparr>holderId = ''alice'',
                            commit_hex = pointToHex Zcurve (pedersenPoint Zcurve 200 1),
                            openingEncrypted = enc\<rparr>],
                total = \<lparr>total_T = bigToDec 200, total_R = bigToDec 1,
                         commitSum = pointToHex Zcurve (pedersenPoint Zcurve 200 1)\<rparr>,
                allowSelfUpdate = Some True\<rparr>" and
    d: "decryptOpening toy_platform (secretKey (x25519 alice)) enc = Some (200, 1)"
    by (rule ledger1_minted)
  show "length (entries ledger1) = 1" "holderId (entries ledger1 ! 0) = ''alice''"
    "commit_hex (entries ledger1 ! 0) = pointToHex Zcurve (pedersenPoint Zcurve 200 1)"
    "decryptOpening toy_platform (secretKey (x25519 alice)) (openingEncrypted (entries ledger1 ! 0)) = Some (200, 1)"
    "total_T (total ledger1) = bigToDec 200" "total_R (total ledger1) = bigToDec 1"
    "commitSum (total ledger1) = pointToHex Zcurve (pedersenPoint Zcurve 200 1)"
    "allowSelfUpdate ledger1 = Some True"
    by (simp_all add: l d)
qed

lemma ledger1_is_minted:
  "mintPoC Zcurve toy_platform rng0 [\<lparr>holder = alice, amount = JSInteger 200\<rparr>] True = Inr ledger1"
  by (rule ledger1_minted)

lemma L_gt_200: "(200::int) < L" "(1::int) < L"
  by (simp_all add: L_def)

lemma verifyTotal_ledger1: "verifyTotal Zcurve ledger1"
  unfolding mintPoC_verifyTotal_iff[OF curve_ok_Zcurve ledger1_is_minted] ledger1_entries decToBig_bigToDec
  using L_gt_200 by simp

lemma verifyOpening_ledger1: "verifyOpening Zcurve (commit_hex (entries ledger1 ! 0)) 200 1"
  using L_gt_200
  by (simp add: verifyOpening_def ledger1_entries pointFromHex_pointToHex[OF curve_ok_Zcurve]
      commit_in_range[OF curve_ok_Zcurve])

lemma findIndex_ledger1: "findIndex (\<lambda>e. holderId e = id_kp alice) (entries ledger1) = Some 0"
proof -
  have "entries ledger1 = [entries ledger1 ! 0]"
    using ledger1_entries(1) by (cases "entries ledger1") simp_all
  then have "findIndex (\<lambda>e. holderId e = id_kp alice) (entries ledger1) =
             findIndex (\<lambda>e. holderId e = id_kp alice) [entries ledger1 ! 0]" by simp
  then show ?thesis by (simp add: ledger1_entries alice_def)
qed


lemma verifyTotal_setT_same:
  "decToBig t = decToBig (total_T (total ledger)) \<Longrightarrow> verifyTotal c (setT ledger t) = verifyTotal c ledger"
  by (subst verifyTotal_setT_iff, subst verifyTotal_iff) simp

lemma pointFromHex_short: "pointFromHex Zcurve ''00'' = None"
  by (simp add: pointFromHex_def Zcurve_sel)

lemma ledger1_commit_decodes:
  "pointFromHex Zcurve (commit_hex (entries ledger1 ! 0)) = Some (pedersenPoint Zcurve 200 1)"
  "pointFromHex Zcurve (commitSum (total ledger1)) = Some (pedersenPoint Zcurve 200 1)"
  by (simp_all add: ledger1_entries pointFromHex_pointToHex[OF curve_ok_Zcurve])

lemma decToBig_examples:
  "decToBig ''300'' = Some 300" "decToBig ''2'' = Some 2" "decToBig ''0200'' = Some 200"
  by code_simp+

lemma bigToDec_examples: "bigToDec 200 = ''200''" "bigToDec 1 = ''1''"
  by code_simp+


lemma pedersenPoint_Zcurve_200_1: "pedersenPoint Zcurve 200 1 = 202"
  by (simp add: pedersenPoint_def G_def H_def Zcurve_sel)

lemma Rep_zl_202: "Rep_bit1 (202 :: zl) = 202"
  by (simp add: bit1.Rep_numeral)

lemma le_bytes_202: "le_bytes 32 202 = 202 # replicate 31 0"
  by code_simp

lemma hex_202:
  "hex_fromBytes (202 # replicate 31 0) =
     ''ca00000000000000000000000000000000000000000000000000000000000000''"
  by code_simp

lemma ledger1_commit_hex:
  "commit_hex (entries ledger1 ! 0) =
     ''ca00000000000000000000000000000000000000000000000000000000000000''"
  by (simp only: ledger1_entries pointToHex_def pedersenPoint_Zcurve_200_1 Zcurve_sel Rep_zl_202
      le_bytes_202 hex_202)

lemma hex_upper_same:
  "hex_toBytes ''CA00000000000000000000000000000000000000000000000000000000000000'' =
   hex_toBytes ''ca00000000000000000000000000000000000000000000000000000000000000''"
  by code_simp

lemma verifyOpening_cong:
  "pointFromHex c h = pointFromHex c h' \<Longrightarrow> verifyOpening c h v r = verifyOpening c h' v r"
  by (simp add: verifyOpening_def)


subsection \<open>Updating one's own entry\<close>

lemma those_eq_None_iff: "those xs = None \<longleftrightarrow> None \<in> set xs"
  by (induction xs) (auto split: option.splits)

lemma sumCommits_eq_None_iff:
  "sumCommits c es = None \<longleftrightarrow> (\<exists>e \<in> set es. pointFromHex c (commit_hex e) = None)"
  by (simp add: sumCommits_def those_eq_None_iff image_iff) metis

lemma sumCommits_update_defined:
  assumes "\<forall>j < length es. j \<noteq> i \<longrightarrow> pointFromHex c (commit_hex (es ! j)) \<noteq> None"
    and "pointFromHex c (commit_hex e') \<noteq> None"
  shows "sumCommits c (es[i := e']) \<noteq> None"
proof -
  have "pointFromHex c (commit_hex e) \<noteq> None" if "e \<in> set (es[i := e'])" for e
  proof -
    from that obtain j where j: "j < length es" "e = es[i := e'] ! j"
      by (auto simp: in_set_conv_nth)
    show ?thesis using j assms by (cases "j = i") simp_all
  qed
  then show ?thesis unfolding sumCommits_eq_None_iff by blast
qed

text \<open>What \<^verbatim>\<open>updateOwnEntry\<close> returns once its checks have passed.\<close>

lemma updateOwnEntry_Inr:
  assumes "updateOwnEntry c p g ledger me amt = Inr ledger'"
  obtains i oldV oldR newV newR newC newEnc oldT oldRsum newCsum and g1 g2 :: rng where
    "allowSelfUpdate ledger = Some True"
    "findIndex (\<lambda>e. holderId e = id_kp me) (entries ledger) = Some i"
    "decryptOpening p (secretKey (x25519 me)) (openingEncrypted (entries ledger ! i)) = Some (oldV, oldR)"
    "amt = JSInteger newV" "drawBlinding g = Some (newR, g1)" "commit c newV newR = Some newC"
    "eciesEncrypt p g1 (publicKey (x25519 me)) (openingPlaintext newV newR) = Some (newEnc, g2)"
    "decToBig (total_T (total ledger)) = Some oldT" "decToBig (total_R (total ledger)) = Some oldRsum"
    "sumCommits c ((entries ledger)[i := \<lparr>holderId = id_kp me, commit_hex = pointToHex c newC,
                                          openingEncrypted = newEnc\<rparr>]) = Some newCsum"
    "ledger' = ledger\<lparr>entries := (entries ledger)[i := \<lparr>holderId = id_kp me,
                          commit_hex = pointToHex c newC, openingEncrypted = newEnc\<rparr>],
                        total := \<lparr>total_T = bigToDec (oldT - oldV + newV),
                                  total_R = bigToDec (modL (oldRsum - oldR + newR)),
                                  commitSum = pointToHex c newCsum\<rparr>\<rparr>"
proof (cases amt)
  case JSNonInteger
  with assms show ?thesis
    by (auto simp: updateOwnEntry_def Let_def split: if_splits option.splits)
next
  case (JSInteger newV)
  with assms show ?thesis
    apply (simp add: updateOwnEntry_def Let_def split: if_splits option.splits prod.splits)
    apply (rule that; assumption?)
    apply simp_all
    done
qed

lemma updateOwnEntry_eq:
  assumes "allowSelfUpdate ledger = Some True"
    "findIndex (\<lambda>e. holderId e = id_kp me) (entries ledger) = Some i"
    "decryptOpening p (secretKey (x25519 me)) (openingEncrypted (entries ledger ! i)) = Some (oldV, oldR)"
    "drawBlinding g = Some (newR, g1)" "commit c newV newR = Some newC"
    "eciesEncrypt p g1 (publicKey (x25519 me)) (openingPlaintext newV newR) = Some (newEnc, g2)"
    "decToBig (total_T (total ledger)) = Some oldT" "decToBig (total_R (total ledger)) = Some oldRsum"
    "sumCommits c ((entries ledger)[i := \<lparr>holderId = id_kp me, commit_hex = pointToHex c newC,
                                          openingEncrypted = newEnc\<rparr>]) = Some newCsum"
  shows "updateOwnEntry c p g ledger me (JSInteger newV) =
           Inr (ledger\<lparr>entries := (entries ledger)[i := \<lparr>holderId = id_kp me,
                          commit_hex = pointToHex c newC, openingEncrypted = newEnc\<rparr>],
                        total := \<lparr>total_T = bigToDec (oldT - oldV + newV),
                                  total_R = bigToDec (modL (oldRsum - oldR + newR)),
                                  commitSum = pointToHex c newCsum\<rparr>\<rparr>)"
  using assms by (simp add: updateOwnEntry_def Let_def)

lemma updateOwnEntry_not_own_error:
  assumes "allowSelfUpdate ledger = Some True"
    "findIndex (\<lambda>e. holderId e = id_kp me) (entries ledger) = Some i"
    "decryptOpening p (secretKey (x25519 me)) (openingEncrypted (entries ledger ! i)) = Some (oldV, oldR)"
  shows "updateOwnEntry c p g ledger me amt = Inl Thrown \<or> (\<exists>ledger'. updateOwnEntry c p g ledger me amt = Inr ledger')"
  using assms by (auto simp: updateOwnEntry_def Let_def split: option.splits)

lemma eciesEncrypt_defined:
  assumes "platform_ok p" "validKeyPair p kp"
  shows "\<exists>enc g'. eciesEncrypt p g (publicKey (x25519 kp)) pt = Some (enc, g')"
proof -
  from assms(2) have sk: "length (secretKey (x25519 kp)) = 32"
    and pk: "publicKey (x25519 kp) = x25519_getPublicKey p (secretKey (x25519 kp))"
    by (simp_all add: validKeyPair_def)
  from ecies_roundtrip[OF assms(1) sk, of g pt] show ?thesis unfolding pk by blast
qed

lemma updateOwnEntry_returns:
  assumes ok: "curve_ok c" and pok: "platform_ok p" and kp: "validKeyPair p me"
    and allow: "allowSelfUpdate ledger = Some True"
    and fi: "findIndex (\<lambda>e. holderId e = id_kp me) (entries ledger) = Some i"
    and d: "decryptOpening p (secretKey (x25519 me)) (openingEncrypted (entries ledger ! i)) = Some (oldV, oldR)"
    and n: "0 \<le> n" "n < L"
    and T: "decToBig (total_T (total ledger)) \<noteq> None" and R: "decToBig (total_R (total ledger)) \<noteq> None"
    and others: "\<forall>j < length (entries ledger). j \<noteq> i \<longrightarrow>
                   pointFromHex c (commit_hex (entries ledger ! j)) \<noteq> None"
  shows "\<exists>ledger'. updateOwnEntry c p g ledger me (JSInteger n) = Inr ledger'"
proof -
  from drawBlinding_Some[of g] obtain newR g1 where rs: "drawBlinding g = Some (newR, g1)" by blast
  note rr = drawBlinding_range[OF rs]
  have cm: "commit c n newR = Some (pedersenPoint c n newR)"
    using n rr by (simp add: commit_in_range[OF ok])
  from eciesEncrypt_defined[OF pok kp, of g1 "openingPlaintext n newR"] obtain newEnc g2 where
    e: "eciesEncrypt p g1 (publicKey (x25519 me)) (openingPlaintext n newR) = Some (newEnc, g2)"
    by blast
  from T R obtain oldT oldRsum where t: "decToBig (total_T (total ledger)) = Some oldT"
    and r: "decToBig (total_R (total ledger)) = Some oldRsum" by auto
  let ?e = "\<lparr>holderId = id_kp me, commit_hex = pointToHex c (pedersenPoint c n newR),
             openingEncrypted = newEnc\<rparr>"
  have "pointFromHex c (commit_hex ?e) \<noteq> None" by (simp add: pointFromHex_pointToHex[OF ok])
  with others have "sumCommits c ((entries ledger)[i := ?e]) \<noteq> None"
    by (rule sumCommits_update_defined)
  then obtain newCsum where s: "sumCommits c ((entries ledger)[i := ?e]) = Some newCsum" by auto
  from updateOwnEntry_eq[OF allow fi d rs cm e t r s] show ?thesis by blast
qed

lemma decryptOpening_garbage:
  "decryptOpening toy_platform (secretKey (x25519 alice)) ''x'' = None"
  by code_simp

lemma findIndex_bob_ledger1: "findIndex (\<lambda>e. holderId e = id_kp bob) (entries ledger1) = None"
proof -
  have "entries ledger1 = [entries ledger1 ! 0]"
    using ledger1_entries(1) by (cases "entries ledger1") simp_all
  then have "findIndex (\<lambda>e. holderId e = id_kp bob) (entries ledger1) =
             findIndex (\<lambda>e. holderId e = id_kp bob) [entries ledger1 ! 0]" by simp
  then show ?thesis by (simp add: ledger1_entries bob_def)
qed


lemma sumCommits_all_decode:
  "sumCommits c es = Some S \<Longrightarrow> j < length es \<Longrightarrow> pointFromHex c (commit_hex (es ! j)) \<noteq> None"
  using sumCommits_eq_None_iff[of c es] by (metis nth_mem option.distinct(1))

lemma pedersenPoint_replace:
  assumes ok: "curve_ok c"
    and eq: "Point_add c S' (pedersenPoint c oldV oldR) =
             Point_add c (pedersenPoint c oldT oldRsum) (pedersenPoint c newV newR)"
  shows "S' = pedersenPoint c (oldT - oldV + newV) (modL (oldRsum - oldR + newR))"
proof -
  have "Point_add c (pedersenPoint c (oldT - oldV + newV) (oldRsum - oldR + newR)) (pedersenPoint c oldV oldR) =
        pedersenPoint c (oldT - oldV + newV + oldV) (oldRsum - oldR + newR + oldR)"
    by (rule pedersenPoint_add[OF ok])
  also have "\<dots> = pedersenPoint c (oldT + newV) (oldRsum + newR)" by simp
  also have "\<dots> = Point_add c (pedersenPoint c oldT oldRsum) (pedersenPoint c newV newR)"
    by (rule pedersenPoint_add[OF ok, symmetric])
  finally have "Point_add c S' (pedersenPoint c oldV oldR) =
     Point_add c (pedersenPoint c (oldT - oldV + newV) (oldRsum - oldR + newR)) (pedersenPoint c oldV oldR)"
    using eq by simp
  then have "S' = pedersenPoint c (oldT - oldV + newV) (oldRsum - oldR + newR)"
    by (rule add_cancel_right[OF ok])
  then show ?thesis by (simp only: modL_eq_mod pedersenPoint_mod(1)[OF ok])
qed


lemma drawBlinding_rng0_fst: "map_option fst (drawBlinding rng0) = Some 1"
  using drawBlinding_rng0 by auto

lemma L_gt_small: "(50::int) < L" "(150::int) < L" "(150::int) mod L = 150" "(50::int) mod L = 50"
  by (simp_all add: L_def)

lemma decToBig_ledger1: "decToBig (total_T (total ledger1)) = Some 200" "decToBig (total_R (total ledger1)) = Some 1"
  by (simp_all add: ledger1_entries decToBig_bigToDec)

lemma update_negative_throws:
  "updateOwnEntry Zcurve toy_platform rng0 ledger1 alice (JSInteger (- 1)) = Inl Thrown"
proof -
  from drawBlinding_rng0 obtain g1 where rs: "drawBlinding rng0 = Some (1, g1)" ..
  have "commit Zcurve (- 1) 1 = None" by (simp add: commit_def multiply_def)
  then show ?thesis
    using ledger1_entries(8) findIndex_ledger1 ledger1_entries(4) rs
    by (simp add: updateOwnEntry_def Let_def)
qed

lemma ledger2_facts:
  "length (entries ledger2) = 1" "holderId (entries ledger2 ! 0) = ''alice''"
  "commit_hex (entries ledger2 ! 0) = commit_hex (entries ledger1 ! 0)"
  "decryptOpening toy_platform (secretKey (x25519 alice)) (openingEncrypted (entries ledger2 ! 0)) = Some (100, 1)"
  "total ledger2 = total ledger1" "allowSelfUpdate ledger2 = Some True"
proof -
  have sk: "length (secretKey (x25519 alice)) = 32" and
    pk: "publicKey (x25519 alice) = x25519_getPublicKey toy_platform (secretKey (x25519 alice))"
    using validKeyPair_alice by (simp_all add: validKeyPair_def)
  from opening_roundtrip[OF platform_ok_toy sk, of rng0 100 1] obtain enc g' where
    "encryptOpening toy_platform rng0 (publicKey (x25519 alice)) (100, 1) = Some (enc, g')"
    "decryptOpening toy_platform (secretKey (x25519 alice)) enc = Some (100, 1)"
    unfolding encryptOpening_def pk by auto
  then show "decryptOpening toy_platform (secretKey (x25519 alice)) (openingEncrypted (entries ledger2 ! 0)) = Some (100, 1)"
    by (simp add: ledger2_def)
  show "length (entries ledger2) = 1" "holderId (entries ledger2 ! 0) = ''alice''"
    "commit_hex (entries ledger2 ! 0) = commit_hex (entries ledger1 ! 0)"
    "total ledger2 = total ledger1" "allowSelfUpdate ledger2 = Some True"
    by (simp_all add: ledger2_def ledger1_entries)
qed

lemma entries_singleton: "length xs = 1 \<Longrightarrow> xs = [xs ! 0]"
  by (cases xs) simp_all

lemma sumCommits_singleton:
  "curve_ok c \<Longrightarrow> sumCommits c [e] = map_option (\<lambda>P. P) (pointFromHex c (commit_hex e))"
  by (cases "pointFromHex c (commit_hex e)") (simp_all add: sumCommits_def add_zero_left)

lemma verifyTotal_ledger2: "verifyTotal Zcurve ledger2"
proof -
  have "sumCommits Zcurve (entries ledger2) = sumCommits Zcurve (entries ledger1)"
    using entries_singleton[OF ledger2_facts(1)] entries_singleton[OF ledger1_entries(1)]
      sumCommits_singleton[OF curve_ok_Zcurve] ledger2_facts(3) by metis
  then show ?thesis using verifyTotal_ledger1 by (simp add: verifyTotal_iff ledger2_facts)
qed

lemma findIndex_ledger2: "findIndex (\<lambda>e. holderId e = id_kp alice) (entries ledger2) = Some 0"
proof -
  have "findIndex (\<lambda>e. holderId e = id_kp alice) (entries ledger2) =
        findIndex (\<lambda>e. holderId e = id_kp alice) [entries ledger2 ! 0]"
    using entries_singleton[OF ledger2_facts(1)] by simp
  then show ?thesis by (simp add: ledger2_facts alice_def)
qed

lemma update_ledger2_not_verified:
  "map_sum id (verifyTotal Zcurve) (updateOwnEntry Zcurve toy_platform rng0 ledger2 alice (JSInteger 50)) =
     Inr False"
proof -
  note ok = curve_ok_Zcurve
  have n: "(0::int) \<le> 50" "(50::int) < L" by (simp_all add: L_gt_small)
  have t: "decToBig (total_T (total ledger2)) = Some 200" "decToBig (total_R (total ledger2)) = Some 1"
    by (simp_all add: ledger2_facts decToBig_ledger1)
  have "\<exists>ledger'. updateOwnEntry Zcurve toy_platform rng0 ledger2 alice (JSInteger 50) = Inr ledger'"
    using ok platform_ok_toy validKeyPair_alice ledger2_facts(6) findIndex_ledger2 ledger2_facts(4) n
    by (rule updateOwnEntry_returns) (simp_all add: t ledger2_facts(1))
  then obtain ledger' where u: "updateOwnEntry Zcurve toy_platform rng0 ledger2 alice (JSInteger 50) = Inr ledger'" ..
  from u obtain i oldV oldR newV newR newC newEnc oldT oldRsum newCsum and g1 g2 :: rng where f:
    "findIndex (\<lambda>e. holderId e = id_kp alice) (entries ledger2) = Some i"
    "decryptOpening toy_platform (secretKey (x25519 alice)) (openingEncrypted (entries ledger2 ! i)) = Some (oldV, oldR)"
    "JSInteger 50 = JSInteger newV" "drawBlinding rng0 = Some (newR, g1)" "commit Zcurve newV newR = Some newC"
    "decToBig (total_T (total ledger2)) = Some oldT" "decToBig (total_R (total ledger2)) = Some oldRsum"
    "sumCommits Zcurve ((entries ledger2)[i := \<lparr>holderId = id_kp alice, commit_hex = pointToHex Zcurve newC,
                                          openingEncrypted = newEnc\<rparr>]) = Some newCsum"
    "ledger' = ledger2\<lparr>entries := (entries ledger2)[i := \<lparr>holderId = id_kp alice,
                          commit_hex = pointToHex Zcurve newC, openingEncrypted = newEnc\<rparr>],
                        total := \<lparr>total_T = bigToDec (oldT - oldV + newV),
                                  total_R = bigToDec (modL (oldRsum - oldR + newR)),
                                  commitSum = pointToHex Zcurve newCsum\<rparr>\<rparr>"
    by (rule updateOwnEntry_Inr)
  from f(1) findIndex_ledger2 have i: "i = 0" by simp
  from f(2) ledger2_facts(4) have old: "oldV = 100" "oldR = 1" unfolding i by simp_all
  from f(3) have nv: "newV = 50" by simp
  from f(4) drawBlinding_rng0 have nr: "newR = 1" by auto
  from f(5) have nc: "newC = pedersenPoint Zcurve 50 1"
    unfolding nv nr by (simp add: commit_eq_Some_iff[OF ok])
  from f(6,7) t have ot: "oldT = 200" "oldRsum = 1" by simp_all
  have "(entries ledger2)[i := \<lparr>holderId = id_kp alice, commit_hex = pointToHex Zcurve newC,
                                          openingEncrypted = newEnc\<rparr>] =
        [\<lparr>holderId = id_kp alice, commit_hex = pointToHex Zcurve newC, openingEncrypted = newEnc\<rparr>]"
    unfolding i using entries_singleton[OF ledger2_facts(1)] by (metis list_update_code(2))
  with f(8) have cs: "newCsum = pedersenPoint Zcurve 50 1"
    by (simp add: sumCommits_singleton[OF ok] pointFromHex_pointToHex[OF ok] nc)
  have "\<not> verifyTotal Zcurve ledger'"
  proof
    assume "verifyTotal Zcurve ledger'"
    then obtain T R S where
      "decToBig (total_T (total ledger')) = Some T" "decToBig (total_R (total ledger')) = Some R"
      "pointFromHex Zcurve (commitSum (total ledger')) = Some S" "S = pedersenPoint Zcurve T R"
      unfolding verifyTotal_iff by blast
    then have "pedersenPoint Zcurve 50 1 = pedersenPoint Zcurve 150 1"
      unfolding f(9) old nv nr ot cs
      by (simp add: decToBig_bigToDec pointFromHex_pointToHex[OF ok] modL_eq_mod L_def)
    from pedersenPoint_inj_v[OF ok this] show False by (simp add: L_gt_small)
  qed
  with u show ?thesis by simp
qed


subsection \<open>The store\<close>

lemma store_copy_write:
  "assignIndex (snd (spreadCopy st r)) (fst (spreadCopy st r)) i e ! (fst (spreadCopy st r)) = (st ! r)[i := e]"
  "k < length st \<Longrightarrow> assignIndex (snd (spreadCopy st r)) (fst (spreadCopy st r)) i e ! k = st ! k"
  by (simp_all add: assignIndex_def spreadCopy_def nth_append)

lemma updateOwnEntry_store_refines:
  "map_sum id (\<lambda>(l', st'). deref st' l') (updateOwnEntry_store c p g st l me amt) =
   updateOwnEntry c p g (deref st l) me amt"
proof -
  have sel: "allowSelfUpdate (deref st l) = allowSelfUpdate_r l" "entries (deref st l) = st ! entries_r l"
    "total (deref st l) = total_r l" by (simp_all add: deref_def)
  have w: "(st @ [st ! entries_r l])[length st := ((st @ [st ! entries_r l]) ! length st)[i := e]] ! length st
           = (st ! entries_r l)[i := e]" for i e
    by (simp add: nth_append)
  show ?thesis
    unfolding updateOwnEntry_store_def updateOwnEntry_def sel Let_def spreadCopy_def assignIndex_def
    by (simp add: w deref_def split: option.splits prod.splits)
qed

lemma updateOwnEntry_store_Inr:
  assumes "updateOwnEntry_store c p g st l me amt = Inr (l', st')"
  shows "\<exists>i e. st' = assignIndex (snd (spreadCopy st (entries_r l))) (fst (spreadCopy st (entries_r l))) i e"
    and "version_r l' = version_r l" and "allowSelfUpdate_r l' = allowSelfUpdate_r l"
    and "entries_r l' = length st"
  using assms
  by (auto simp: updateOwnEntry_store_def Let_def spreadCopy_def
      split: if_splits option.splits prod.splits)


section \<open>The claims\<close>

text \<open>
  C1 (verification completeness): the ledger that \<^verbatim>\<open>mintPoC\<close> produces always passes
  \<^verbatim>\<open>verifyTotal\<close>. The code does not do that: when every amount is 0 (the empty list, or
  a single entry of amount 0), minting succeeds with the total \<^verbatim>\<open>"0"\<close>, and
  \<^verbatim>\<open>verifyTotal\<close> returns \<^verbatim>\<open>false\<close>, because \<^verbatim>\<open>G.multiply(0n)\<close> throws there, while
  \<^verbatim>\<open>commit\<close> treats the scalar 0 apart.
\<close>

theorem mintPoC_zero_total_fails_verifyTotal:
  assumes "mintPoC c p g allocs allowSelf = Inr ledger"
    and "list_all (\<lambda>a. amount a = JSInteger 0) allocs"
  shows "total_T (total ledger) = ''0'' \<and> \<not> verifyTotal c ledger"
proof -
  from assms(1) obtain es T Rsum Csum where
    ml: "mint_loop c p allocs ([], 0, 0, Point_ZERO c) g = Some (es, T, Rsum, Csum)" and
    l: "ledger = \<lparr>version = ''1'', entries = es,
               total = \<lparr>total_T = bigToDec T, total_R = bigToDec Rsum, commitSum = pointToHex c Csum\<rparr>,
               allowSelfUpdate = Some allowSelf\<rparr>"
    by (rule mintPoC_Inr)
  from ml assms(2) have T: "T = 0" by (rule mint_loop_zero_T)
  have z: "bigToDec 0 = ''0''" by (simp add: bigToDec_def natToDec.simps hexDigit_def)
  have "decToBig (total_T (total ledger)) = Some 0" unfolding l T by (simp add: decToBig_bigToDec)
  then have "\<not> verifyTotal c ledger" by (rule verifyTotal_zero_T)
  then show ?thesis by (simp add: l T z)
qed

theorem mintPoC_zero_total_fails_verifyTotal_witness:
  "mintPoC Zcurve toy_platform rng0 [\<lparr>holder = alice, amount = JSInteger 0\<rparr>] True = Inr ledger0 \<and>
   list_all (\<lambda>a. amount a = JSInteger 0) [\<lparr>holder = alice, amount = JSInteger 0\<rparr>] \<and>
   total_T (total ledger0) = ''0'' \<and> \<not> verifyTotal Zcurve ledger0"
proof -
  have h: "list_all (\<lambda>a. amount a = JSInteger 0) [\<lparr>holder = alice, amount = JSInteger 0\<rparr>]"
    by simp
  show ?thesis
    using mintPoC_zero_total_fails_verifyTotal[OF ledger0_minted h] ledger0_minted h by simp
qed

text \<open>
  C2 (verification soundness): in a ledger that verifies, changing one entry's commitment,
  \<^verbatim>\<open>total.T\<close>, \<^verbatim>\<open>total.R\<close> or \<^verbatim>\<open>total.commitSum\<close> makes \<^verbatim>\<open>verifyTotal\<close> return
  \<^verbatim>\<open>false\<close> and the public total of every holder's view \<open>None\<close>, provided the new
  string does not denote what the old one did: it decodes to another group element or to
  another integer, or it does not decode.
\<close>

theorem single_field_tamper_rejected:
  assumes ok: "curve_ok c" and v: "verifyTotal c ledger"
  shows
    "(i < length (entries ledger) \<and>
      pointFromHex c h \<noteq> pointFromHex c (commit_hex (entries ledger ! i)) \<longrightarrow>
        \<not> verifyTotal c (setCommit ledger i h) \<and>
        (\<exists>view. getUserView c p (setCommit ledger i h) me = Inr view \<and> publicTotal view = None)) \<and>
     (decToBig t \<noteq> decToBig (total_T (total ledger)) \<longrightarrow>
        \<not> verifyTotal c (setT ledger t) \<and>
        (\<exists>view. getUserView c p (setT ledger t) me = Inr view \<and> publicTotal view = None)) \<and>
     (decToBig r \<noteq> decToBig (total_R (total ledger)) \<longrightarrow>
        \<not> verifyTotal c (setR ledger r) \<and>
        (\<exists>view. getUserView c p (setR ledger r) me = Inr view \<and> publicTotal view = None)) \<and>
     (pointFromHex c hs \<noteq> pointFromHex c (commitSum (total ledger)) \<longrightarrow>
        \<not> verifyTotal c (setCommitSum ledger hs) \<and>
        (\<exists>view. getUserView c p (setCommitSum ledger hs) me = Inr view \<and> publicTotal view = None))"
proof (intro conjI impI)
  assume "i < length (entries ledger) \<and>
      pointFromHex c h \<noteq> pointFromHex c (commit_hex (entries ledger ! i))"
  then show a: "\<not> verifyTotal c (setCommit ledger i h)"
    using tamper_commit_detected[OF ok v] by blast
  show "\<exists>view. getUserView c p (setCommit ledger i h) me = Inr view \<and> publicTotal view = None"
    using a by (rule publicTotal_None)
next
  assume "decToBig t \<noteq> decToBig (total_T (total ledger))"
  then show a: "\<not> verifyTotal c (setT ledger t)" by (rule tamper_T_detected[OF ok v])
  show "\<exists>view. getUserView c p (setT ledger t) me = Inr view \<and> publicTotal view = None"
    using a by (rule publicTotal_None)
next
  assume "decToBig r \<noteq> decToBig (total_R (total ledger))"
  then show a: "\<not> verifyTotal c (setR ledger r)" by (rule tamper_R_detected[OF ok v])
  show "\<exists>view. getUserView c p (setR ledger r) me = Inr view \<and> publicTotal view = None"
    using a by (rule publicTotal_None)
next
  assume "pointFromHex c hs \<noteq> pointFromHex c (commitSum (total ledger))"
  then show a: "\<not> verifyTotal c (setCommitSum ledger hs)" by (rule tamper_commitSum_detected[OF v])
  show "\<exists>view. getUserView c p (setCommitSum ledger hs) me = Inr view \<and> publicTotal view = None"
    using a by (rule publicTotal_None)
qed

theorem single_field_tamper_rejected_witness:
  "curve_ok Zcurve \<and> verifyTotal Zcurve ledger1 \<and>
   0 < length (entries ledger1) \<and>
   pointFromHex Zcurve ''00'' \<noteq> pointFromHex Zcurve (commit_hex (entries ledger1 ! 0)) \<and>
   decToBig ''300'' \<noteq> decToBig (total_T (total ledger1)) \<and>
   decToBig ''2'' \<noteq> decToBig (total_R (total ledger1)) \<and>
   pointFromHex Zcurve ''00'' \<noteq> pointFromHex Zcurve (commitSum (total ledger1)) \<and>
   \<not> verifyTotal Zcurve (setCommit ledger1 0 ''00'') \<and>
   (\<exists>view. getUserView Zcurve toy_platform (setCommit ledger1 0 ''00'') bob = Inr view \<and>
      publicTotal view = None) \<and>
   \<not> verifyTotal Zcurve (setT ledger1 ''300'') \<and>
   (\<exists>view. getUserView Zcurve toy_platform (setT ledger1 ''300'') bob = Inr view \<and>
      publicTotal view = None) \<and>
   \<not> verifyTotal Zcurve (setR ledger1 ''2'') \<and>
   (\<exists>view. getUserView Zcurve toy_platform (setR ledger1 ''2'') bob = Inr view \<and>
      publicTotal view = None) \<and>
   \<not> verifyTotal Zcurve (setCommitSum ledger1 ''00'') \<and>
   (\<exists>view. getUserView Zcurve toy_platform (setCommitSum ledger1 ''00'') bob = Inr view \<and>
      publicTotal view = None)"
proof -
  have h1: "0 < length (entries ledger1)" by (simp add: ledger1_entries)
  have h2: "pointFromHex Zcurve ''00'' \<noteq> pointFromHex Zcurve (commit_hex (entries ledger1 ! 0))"
    by (simp only: pointFromHex_short ledger1_commit_decodes) simp
  have h3: "decToBig ''300'' \<noteq> decToBig (total_T (total ledger1))"
    by (simp add: ledger1_entries decToBig_bigToDec decToBig_examples)
  have h4: "decToBig ''2'' \<noteq> decToBig (total_R (total ledger1))"
    by (simp add: ledger1_entries decToBig_bigToDec decToBig_examples)
  have h5: "pointFromHex Zcurve ''00'' \<noteq> pointFromHex Zcurve (commitSum (total ledger1))"
    by (simp only: pointFromHex_short ledger1_commit_decodes) simp
  from single_field_tamper_rejected[OF curve_ok_Zcurve verifyTotal_ledger1,
      of 0 "''00''" toy_platform bob "''300''" "''2''" "''00''"]
    curve_ok_Zcurve verifyTotal_ledger1 h1 h2 h3 h4 h5
  show ?thesis by blast
qed

text \<open>
  C2 as stated, for any different value: the decoders are lenient, so a different string
  can denote the same value. \<^verbatim>\<open>BigInt("0200")\<close> is 200, and the minted ledger whose total
  is \<^verbatim>\<open>"200"\<close> still verifies after \<^verbatim>\<open>total.T\<close> has been changed to \<^verbatim>\<open>"0200"\<close>.
\<close>

theorem single_field_tamper_rejected_counterexample:
  "mintPoC Zcurve toy_platform rng0 [\<lparr>holder = alice, amount = JSInteger 200\<rparr>] True = Inr ledger1 \<and>
   verifyTotal Zcurve ledger1 \<and> total_T (total ledger1) = ''200'' \<and>
   total_T (total (setT ledger1 ''0200'')) = ''0200'' \<and>
   verifyTotal Zcurve (setT ledger1 ''0200'')"
proof -
  have "decToBig ''0200'' = decToBig (total_T (total ledger1))"
    by (simp add: ledger1_entries decToBig_bigToDec decToBig_examples)
  then have "verifyTotal Zcurve (setT ledger1 ''0200'')"
    using verifyTotal_ledger1 by (simp add: verifyTotal_setT_same)
  then show ?thesis
    using ledger1_is_minted verifyTotal_ledger1
    by (simp add: ledger1_entries bigToDec_examples total_set_simps)
qed

text \<open>
  C3 (self-update invariant): on a ledger that allows self-update and verifies, for a
  holder with a valid key pair whose entry decrypts to \<open>(oldV, oldR)\<close> and opens its
  commitment, and an integer amount \<open>0 \<le> newV < L\<close> such that the new total
  \<open>oldT - oldV + newV\<close> lies between 1 and \<open>L - 1\<close> and the new blinding sum is not 0,
  \<^verbatim>\<open>updateOwnEntry\<close> returns a ledger whose total is \<open>oldT - oldV + newV\<close> and that
  verifies.
\<close>

theorem updateOwnEntry_keeps_total_verified:
  assumes ok: "curve_ok c" and pok: "platform_ok p" and kp: "validKeyPair p me"
    and allow: "allowSelfUpdate ledger = Some True"
    and v: "verifyTotal c ledger"
    and fi: "findIndex (\<lambda>e. holderId e = id_kp me) (entries ledger) = Some i"
    and d: "decryptOpening p (secretKey (x25519 me)) (openingEncrypted (entries ledger ! i)) = Some (oldV, oldR)"
    and vo: "verifyOpening c (commit_hex (entries ledger ! i)) oldV oldR"
    and n: "0 \<le> newV" "newV < L"
    and T: "decToBig (total_T (total ledger)) = Some oldT"
    and R: "decToBig (total_R (total ledger)) = Some oldRsum"
    and rs: "drawBlinding g = Some (newR, g1)"
    and nt: "0 < oldT - oldV + newV" "oldT - oldV + newV < L"
    and nr: "modL (oldRsum - oldR + newR) \<noteq> 0"
  shows "\<exists>ledger'. updateOwnEntry c p g ledger me (JSInteger newV) = Inr ledger' \<and>
           decToBig (total_T (total ledger')) = Some (oldT - oldV + newV) \<and>
           verifyTotal c ledger'"
proof -
  let ?es = "entries ledger"
  from v T R obtain S where S: "pointFromHex c (commitSum (total ledger)) = Some S"
    "sumCommits c ?es = Some S" "S = pedersenPoint c oldT oldRsum"
    unfolding verifyTotal_iff by auto
  from vo obtain P where P: "pointFromHex c (commit_hex (?es ! i)) = Some P" "commit c oldV oldR = Some P"
    by (auto simp: verifyOpening_def split: option.splits)
  from P(2) have Pv: "P = pedersenPoint c oldV oldR" by (simp add: commit_eq_Some_iff[OF ok])
  note rr = drawBlinding_range[OF rs]
  have cm: "commit c newV newR = Some (pedersenPoint c newV newR)"
    using n rr by (simp add: commit_in_range[OF ok])
  from eciesEncrypt_defined[OF pok kp, of g1 "openingPlaintext newV newR"] obtain newEnc g2 where
    e: "eciesEncrypt p g1 (publicKey (x25519 me)) (openingPlaintext newV newR) = Some (newEnc, g2)"
    by blast
  define ne where "ne = \<lparr>holderId = id_kp me, commit_hex = pointToHex c (pedersenPoint c newV newR),
                          openingEncrypted = newEnc\<rparr>"
  have i: "i < length ?es" using findIndex_Some[OF fi] by simp
  have dn: "pointFromHex c (commit_hex ne) = Some (pedersenPoint c newV newR)"
    by (simp add: ne_def pointFromHex_pointToHex[OF ok])
  have "sumCommits c (?es[i := ne]) \<noteq> None"
    using sumCommits_all_decode[OF S(2)] dn by (intro sumCommits_update_defined) simp_all
  then obtain S' where S': "sumCommits c (?es[i := ne]) = Some S'" by auto
  from sumCommits_update[OF ok i S(2) S'] obtain P' Q' where
    "pointFromHex c (commit_hex (?es ! i)) = Some P'" "pointFromHex c (commit_hex ne) = Some Q'"
    "Point_add c S' P' = Point_add c S Q'" by blast
  with P(1) dn have "Point_add c S' (pedersenPoint c oldV oldR) =
      Point_add c (pedersenPoint c oldT oldRsum) (pedersenPoint c newV newR)"
    unfolding Pv S(3) by simp
  then have Sv: "S' = pedersenPoint c (oldT - oldV + newV) (modL (oldRsum - oldR + newR))"
    by (rule pedersenPoint_replace[OF ok])
  define ledger' where "ledger' = ledger\<lparr>entries := ?es[i := ne],
                        total := \<lparr>total_T = bigToDec (oldT - oldV + newV),
                                  total_R = bigToDec (modL (oldRsum - oldR + newR)),
                                  commitSum = pointToHex c S'\<rparr>\<rparr>"
  have u: "updateOwnEntry c p g ledger me (JSInteger newV) = Inr ledger'"
    unfolding ledger'_def ne_def
    by (rule updateOwnEntry_eq[OF allow fi d rs cm e T R S'[unfolded ne_def]])
  have t': "decToBig (total_T (total ledger')) = Some (oldT - oldV + newV)"
    by (simp add: ledger'_def decToBig_bigToDec)
  have rng: "1 \<le> modL (oldRsum - oldR + newR)" "modL (oldRsum - oldR + newR) < L"
    using modL_range[of "oldRsum - oldR + newR"] nr by simp_all
  have "verifyTotal c ledger'"
    unfolding verifyTotal_iff
    using nt rng Sv S'
    by (simp add: ledger'_def decToBig_bigToDec pointFromHex_pointToHex[OF ok])
  with u t' show ?thesis by blast
qed

theorem updateOwnEntry_keeps_total_verified_witness:
  "curve_ok Zcurve \<and> platform_ok toy_platform \<and> validKeyPair toy_platform alice \<and>
   allowSelfUpdate ledger1 = Some True \<and> verifyTotal Zcurve ledger1 \<and>
   findIndex (\<lambda>e. holderId e = id_kp alice) (entries ledger1) = Some 0 \<and>
   decryptOpening toy_platform (secretKey (x25519 alice)) (openingEncrypted (entries ledger1 ! 0)) =
     Some (200, 1) \<and>
   verifyOpening Zcurve (commit_hex (entries ledger1 ! 0)) 200 1 \<and>
   (0::int) \<le> 50 \<and> (50::int) < L \<and>
   decToBig (total_T (total ledger1)) = Some 200 \<and> decToBig (total_R (total ledger1)) = Some 1 \<and>
   map_option fst (drawBlinding rng0) = Some 1 \<and>
   (0::int) < 200 - 200 + 50 \<and> (200::int) - 200 + 50 < L \<and> modL (1 - 1 + 1) \<noteq> 0 \<and>
   (\<exists>ledger'. updateOwnEntry Zcurve toy_platform rng0 ledger1 alice (JSInteger 50) = Inr ledger' \<and>
      decToBig (total_T (total ledger')) = Some (200 - 200 + 50) \<and> verifyTotal Zcurve ledger')"
proof -
  from drawBlinding_rng0 obtain g1 where rs: "drawBlinding rng0 = Some (1, g1)" ..
  have n: "(0::int) \<le> 50" "(50::int) < L" by (simp_all add: L_gt_small)
  have nt: "(0::int) < 200 - 200 + 50" "(200::int) - 200 + 50 < L" by (simp_all add: L_gt_small)
  have nr: "modL (1 - 1 + 1) \<noteq> 0" by (simp add: modL_eq_mod L_def)
  from updateOwnEntry_keeps_total_verified[OF curve_ok_Zcurve platform_ok_toy validKeyPair_alice
      ledger1_entries(8) verifyTotal_ledger1 findIndex_ledger1 ledger1_entries(4)
      verifyOpening_ledger1 n decToBig_ledger1 rs nt nr]
    curve_ok_Zcurve platform_ok_toy validKeyPair_alice
      ledger1_entries(8) verifyTotal_ledger1 findIndex_ledger1 ledger1_entries(4)
      verifyOpening_ledger1 n decToBig_ledger1 drawBlinding_rng0_fst nt nr
  show ?thesis by blast
qed

text \<open>
  C3 as stated, for every amount and every entry that decrypts: the amount \<open>-1\<close> makes
  \<^verbatim>\<open>commit\<close> throw; and when the stored opening decrypts but is not the opening of the
  stored commitment (\<open>ledger2\<close>), the update returns a ledger that does not verify.
\<close>

theorem updateOwnEntry_keeps_total_verified_counterexample:
  "allowSelfUpdate ledger1 = Some True \<and> verifyTotal Zcurve ledger1 \<and>
   decryptOpening toy_platform (secretKey (x25519 alice)) (openingEncrypted (entries ledger1 ! 0)) =
     Some (200, 1) \<and>
   updateOwnEntry Zcurve toy_platform rng0 ledger1 alice (JSInteger (- 1)) = Inl Thrown \<and>
   allowSelfUpdate ledger2 = Some True \<and> verifyTotal Zcurve ledger2 \<and>
   decryptOpening toy_platform (secretKey (x25519 alice)) (openingEncrypted (entries ledger2 ! 0)) =
     Some (100, 1) \<and>
   map_sum id (verifyTotal Zcurve)
     (updateOwnEntry Zcurve toy_platform rng0 ledger2 alice (JSInteger 50)) = Inr False"
  using ledger1_entries(8) verifyTotal_ledger1 ledger1_entries(4) update_negative_throws
    ledger2_facts(6) verifyTotal_ledger2 ledger2_facts(4) update_ledger2_not_verified
  by simp

text \<open>
  C4 (homomorphism): \<^verbatim>\<open>commit(v1, r1) + commit(v2, r2) = commit(v1 + v2, (r1 + r2) mod L)\<close>.
  \<^verbatim>\<open>commit\<close> throws on a value below 0 or from \<open>L\<close> on, and on a blinding outside
  \<open>0 \<le> r < L\<close>, so the equation is one between defined commitments for values
  \<open>0 \<le> v1\<close>, \<open>0 \<le> v2\<close>, \<open>v1 + v2 < L\<close> and blindings \<open>0 \<le> r1, r2 < L\<close>; there it holds.
\<close>

theorem commit_homomorphic:
  assumes ok: "curve_ok c"
    and v: "0 \<le> v1" "0 \<le> v2" "v1 + v2 < L"
    and r: "0 \<le> r1" "r1 < L" "0 \<le> r2" "r2 < L"
  shows "\<exists>C1 C2. commit c v1 r1 = Some C1 \<and> commit c v2 r2 = Some C2 \<and>
                 commit c (v1 + v2) (modL (r1 + r2)) = Some (Point_add c C1 C2)"
proof -
  have c1: "commit c v1 r1 = Some (pedersenPoint c v1 r1)"
    using v r by (intro commit_in_range[OF ok]) simp_all
  have c2: "commit c v2 r2 = Some (pedersenPoint c v2 r2)"
    using v r by (intro commit_in_range[OF ok]) simp_all
  have "commit c (v1 + v2) (modL (r1 + r2)) = Some (pedersenPoint c (v1 + v2) (modL (r1 + r2)))"
    using v modL_range[of "r1 + r2"] by (intro commit_in_range[OF ok]) simp_all
  also have "pedersenPoint c (v1 + v2) (modL (r1 + r2)) =
             Point_add c (pedersenPoint c v1 r1) (pedersenPoint c v2 r2)"
    by (simp only: modL_eq_mod pedersenPoint_mod(1)[OF ok] pedersenPoint_add[OF ok])
  finally show ?thesis using c1 c2 by blast
qed

theorem commit_homomorphic_witness:
  "curve_ok Zcurve \<and> (0::int) \<le> 100 \<and> (0::int) \<le> 200 \<and> (100::int) + 200 < L \<and>
   (0::int) \<le> 5 \<and> (5::int) < L \<and> (0::int) \<le> 7 \<and> (7::int) < L \<and>
   (\<exists>C1 C2. commit Zcurve 100 5 = Some C1 \<and> commit Zcurve 200 7 = Some C2 \<and>
            commit Zcurve (100 + 200) (modL (5 + 7)) = Some (Point_add Zcurve C1 C2))"
proof -
  have h: "(0::int) \<le> 100" "(0::int) \<le> 200" "(100::int) + 200 < L"
    "(0::int) \<le> 5" "(5::int) < L" "(0::int) \<le> 7" "(7::int) < L"
    by (simp_all add: L_def)
  from commit_homomorphic[OF curve_ok_Zcurve h] curve_ok_Zcurve h show ?thesis by blast
qed

text \<open>
  C4 as stated, for all integers: \<^verbatim>\<open>commit(-1, 1)\<close> throws, and so does
  \<^verbatim>\<open>commit(v1 + v2, ...)\<close> for \<open>v1 = v2 = L - 1\<close>, two values that \<^verbatim>\<open>commit\<close> accepts.
\<close>

theorem commit_homomorphic_counterexample:
  "commit Zcurve (- 1) 1 = None \<and>
   commit Zcurve (L - 1) 1 \<noteq> None \<and> commit Zcurve (L - 1 + (L - 1)) (modL (1 + 1)) = None"
  by (simp add: commit_def multiply_def L_def modL_eq_mod)

text \<open>
  C5 (round trip): for a valid encryption key pair and every opening \<open>(v, r)\<close>,
  encrypting the opening to the public key succeeds, and decrypting the result with the
  secret key gives back \<open>(v, r)\<close>.
\<close>

theorem encryption_roundtrip:
  assumes "platform_ok p" and "validKeyPair p kp"
  shows "\<exists>enc g'. encryptOpening p g (publicKey (x25519 kp)) (v, r) = Some (enc, g') \<and>
                  decryptOpening p (secretKey (x25519 kp)) enc = Some (v, r)"
proof -
  from assms(2) have sk: "length (secretKey (x25519 kp)) = 32"
    and pk: "publicKey (x25519 kp) = x25519_getPublicKey p (secretKey (x25519 kp))"
    by (simp_all add: validKeyPair_def)
  from opening_roundtrip[OF assms(1) sk, of g v r] show ?thesis
    unfolding encryptOpening_def pk by simp
qed

theorem encryption_roundtrip_witness:
  "platform_ok toy_platform \<and> validKeyPair toy_platform alice \<and>
   (\<exists>enc g'. encryptOpening toy_platform rng0 (publicKey (x25519 alice)) (200, 1) = Some (enc, g') \<and>
             decryptOpening toy_platform (secretKey (x25519 alice)) enc = Some (200, 1))"
  using encryption_roundtrip[OF platform_ok_toy validKeyPair_alice, of rng0 200 1]
    platform_ok_toy validKeyPair_alice by blast

text \<open>
  C6 (the errors of \<^verbatim>\<open>updateOwnEntry\<close>, in the order of the checks):
  \<open>PermissionDenied\<close> whenever self-update is not allowed; otherwise \<open>NotFound\<close> whenever
  no entry has the caller's id; otherwise \<open>DecryptionFailure\<close> whenever the stored opening
  does not decrypt; in every other case the result is a new ledger or an exception of
  the library that the code does not catch, never one of the three errors, and it is a
  new ledger whenever the new amount is an integer \<open>0 \<le> n < L\<close>, the key pair is valid,
  \<^verbatim>\<open>total.T\<close> and \<^verbatim>\<open>total.R\<close> parse and the other commitments decode.
\<close>

theorem updateOwnEntry_error_order:
  "(allowSelfUpdate ledger \<noteq> Some True \<longrightarrow>
      updateOwnEntry c p g ledger me amt = Inl PermissionDenied) \<and>
   (allowSelfUpdate ledger = Some True \<and>
    findIndex (\<lambda>e. holderId e = id_kp me) (entries ledger) = None \<longrightarrow>
      updateOwnEntry c p g ledger me amt = Inl NotFound) \<and>
   (allowSelfUpdate ledger = Some True \<and>
    findIndex (\<lambda>e. holderId e = id_kp me) (entries ledger) = Some i \<and>
    decryptOpening p (secretKey (x25519 me)) (openingEncrypted (entries ledger ! i)) = None \<longrightarrow>
      updateOwnEntry c p g ledger me amt = Inl DecryptionFailure) \<and>
   (allowSelfUpdate ledger = Some True \<and>
    findIndex (\<lambda>e. holderId e = id_kp me) (entries ledger) = Some i \<and>
    decryptOpening p (secretKey (x25519 me)) (openingEncrypted (entries ledger ! i)) = Some (oldV, oldR) \<longrightarrow>
      (updateOwnEntry c p g ledger me amt = Inl Thrown \<or>
       (\<exists>ledger'. updateOwnEntry c p g ledger me amt = Inr ledger')) \<and>
      (curve_ok c \<and> platform_ok p \<and> validKeyPair p me \<and> amt = JSInteger n \<and> 0 \<le> n \<and> n < L \<and>
       decToBig (total_T (total ledger)) \<noteq> None \<and> decToBig (total_R (total ledger)) \<noteq> None \<and>
       (\<forall>j < length (entries ledger). j \<noteq> i \<longrightarrow>
          pointFromHex c (commit_hex (entries ledger ! j)) \<noteq> None) \<longrightarrow>
         (\<exists>ledger'. updateOwnEntry c p g ledger me amt = Inr ledger')))"
proof (intro conjI impI)
  assume "allowSelfUpdate ledger \<noteq> Some True"
  then show "updateOwnEntry c p g ledger me amt = Inl PermissionDenied"
    by (simp add: updateOwnEntry_def)
next
  assume "allowSelfUpdate ledger = Some True \<and>
    findIndex (\<lambda>e. holderId e = id_kp me) (entries ledger) = None"
  then show "updateOwnEntry c p g ledger me amt = Inl NotFound"
    by (simp add: updateOwnEntry_def)
next
  assume "allowSelfUpdate ledger = Some True \<and>
    findIndex (\<lambda>e. holderId e = id_kp me) (entries ledger) = Some i \<and>
    decryptOpening p (secretKey (x25519 me)) (openingEncrypted (entries ledger ! i)) = None"
  then show "updateOwnEntry c p g ledger me amt = Inl DecryptionFailure"
    by (simp add: updateOwnEntry_def Let_def)
next
  assume a: "allowSelfUpdate ledger = Some True \<and>
    findIndex (\<lambda>e. holderId e = id_kp me) (entries ledger) = Some i \<and>
    decryptOpening p (secretKey (x25519 me)) (openingEncrypted (entries ledger ! i)) = Some (oldV, oldR)"
  then show "updateOwnEntry c p g ledger me amt = Inl Thrown \<or>
       (\<exists>ledger'. updateOwnEntry c p g ledger me amt = Inr ledger')"
    using updateOwnEntry_not_own_error[of ledger me i p oldV oldR c g amt] by blast
  assume b: "curve_ok c \<and> platform_ok p \<and> validKeyPair p me \<and> amt = JSInteger n \<and> 0 \<le> n \<and> n < L \<and>
       decToBig (total_T (total ledger)) \<noteq> None \<and> decToBig (total_R (total ledger)) \<noteq> None \<and>
       (\<forall>j < length (entries ledger). j \<noteq> i \<longrightarrow>
          pointFromHex c (commit_hex (entries ledger ! j)) \<noteq> None)"
  then have amt: "amt = JSInteger n" by simp
  show "\<exists>ledger'. updateOwnEntry c p g ledger me amt = Inr ledger'"
    unfolding amt using a b by (intro updateOwnEntry_returns[where i = i and oldV = oldV and oldR = oldR]) simp_all
qed

theorem updateOwnEntry_error_order_witness:
  "allowSelfUpdate (ledger1\<lparr>allowSelfUpdate := None\<rparr>) = None \<and>
   updateOwnEntry Zcurve toy_platform rng0 (ledger1\<lparr>allowSelfUpdate := None\<rparr>) alice (JSInteger 50)
     = Inl PermissionDenied \<and>
   allowSelfUpdate ledger1 = Some True \<and>
   findIndex (\<lambda>e. holderId e = id_kp bob) (entries ledger1) = None \<and>
   updateOwnEntry Zcurve toy_platform rng0 ledger1 bob (JSInteger 50) = Inl NotFound \<and>
   findIndex (\<lambda>e. holderId e = id_kp alice)
     (entries (ledger1\<lparr>entries := [(entries ledger1 ! 0)\<lparr>openingEncrypted := ''x''\<rparr>]\<rparr>)) = Some 0 \<and>
   decryptOpening toy_platform (secretKey (x25519 alice)) ''x'' = None \<and>
   updateOwnEntry Zcurve toy_platform rng0
     (ledger1\<lparr>entries := [(entries ledger1 ! 0)\<lparr>openingEncrypted := ''x''\<rparr>]\<rparr>) alice (JSInteger 50)
     = Inl DecryptionFailure \<and>
   findIndex (\<lambda>e. holderId e = id_kp alice) (entries ledger1) = Some 0 \<and>
   decryptOpening toy_platform (secretKey (x25519 alice)) (openingEncrypted (entries ledger1 ! 0)) =
     Some (200, 1) \<and>
   curve_ok Zcurve \<and> platform_ok toy_platform \<and> validKeyPair toy_platform alice \<and>
   (0::int) \<le> 50 \<and> (50::int) < L \<and>
   decToBig (total_T (total ledger1)) = Some 200 \<and> decToBig (total_R (total ledger1)) = Some 1 \<and>
   length (entries ledger1) = 1 \<and>
   (\<exists>ledger'. updateOwnEntry Zcurve toy_platform rng0 ledger1 alice (JSInteger 50) = Inr ledger')"
proof -
  let ?lx = "ledger1\<lparr>entries := [(entries ledger1 ! 0)\<lparr>openingEncrypted := ''x''\<rparr>]\<rparr>"
  have a1: "allowSelfUpdate (ledger1\<lparr>allowSelfUpdate := None\<rparr>) = None" by simp
  then have a1': "allowSelfUpdate (ledger1\<lparr>allowSelfUpdate := None\<rparr>) \<noteq> Some True" by simp
  have c1: "updateOwnEntry Zcurve toy_platform rng0 (ledger1\<lparr>allowSelfUpdate := None\<rparr>) alice (JSInteger 50)
     = Inl PermissionDenied"
    using updateOwnEntry_error_order[of "ledger1\<lparr>allowSelfUpdate := None\<rparr>" Zcurve toy_platform rng0 alice "JSInteger 50"] a1'
    by blast
  note a2 = ledger1_entries(8) findIndex_bob_ledger1
  have c2: "updateOwnEntry Zcurve toy_platform rng0 ledger1 bob (JSInteger 50) = Inl NotFound"
    using updateOwnEntry_error_order[of ledger1 Zcurve toy_platform rng0 bob "JSInteger 50"] a2
    by blast
  have a3: "allowSelfUpdate ?lx = Some True" by (simp add: ledger1_entries)
  have f3: "findIndex (\<lambda>e. holderId e = id_kp alice) (entries ?lx) = Some 0"
    by (simp add: ledger1_entries alice_def)
  have d3: "decryptOpening toy_platform (secretKey (x25519 alice)) (openingEncrypted (entries ?lx ! 0)) = None"
    by (simp add: decryptOpening_garbage)
  have c3: "updateOwnEntry Zcurve toy_platform rng0 ?lx alice (JSInteger 50) = Inl DecryptionFailure"
    using updateOwnEntry_error_order[of ?lx Zcurve toy_platform rng0 alice "JSInteger 50" 0] a3 f3 d3
    by blast
  have n: "(0::int) \<le> 50" "(50::int) < L" by (simp_all add: L_def)
  have t: "decToBig (total_T (total ledger1)) = Some 200" "decToBig (total_R (total ledger1)) = Some 1"
    by (simp_all add: ledger1_entries decToBig_bigToDec)
  have o: "\<forall>j < length (entries ledger1). j \<noteq> 0 \<longrightarrow>
          pointFromHex Zcurve (commit_hex (entries ledger1 ! j)) \<noteq> None"
    by (simp add: ledger1_entries)
  have c4: "\<exists>ledger'. updateOwnEntry Zcurve toy_platform rng0 ledger1 alice (JSInteger 50) = Inr ledger'"
    using updateOwnEntry_error_order[of ledger1 Zcurve toy_platform rng0 alice "JSInteger 50" 0 200 1 50]
      ledger1_entries(8) findIndex_ledger1 ledger1_entries(4)
      curve_ok_Zcurve platform_ok_toy validKeyPair_alice n t o
    by simp
  show ?thesis
    using a1 c1 a2 c2 f3 decryptOpening_garbage c3 findIndex_ledger1 ledger1_entries(4)
      curve_ok_Zcurve platform_ok_toy validKeyPair_alice n t ledger1_entries(1) c4
    by simp
qed

text \<open>
  C6 as stated, that every other case returns a ledger: with all three checks passed, a
  new amount that is not an integer makes \<^verbatim>\<open>BigInt(newAmount)\<close> throw.
\<close>

theorem updateOwnEntry_error_order_counterexample:
  "allowSelfUpdate ledger1 = Some True \<and>
   findIndex (\<lambda>e. holderId e = id_kp alice) (entries ledger1) = Some 0 \<and>
   decryptOpening toy_platform (secretKey (x25519 alice)) (openingEncrypted (entries ledger1 ! 0)) =
     Some (200, 1) \<and>
   updateOwnEntry Zcurve toy_platform rng0 ledger1 alice JSNonInteger = Inl Thrown"
  using ledger1_entries(8) findIndex_ledger1 ledger1_entries(4)
  by (simp add: updateOwnEntry_def Let_def)

text \<open>
  C7 (tamper detection at entry level): when a holder's entry decrypts to \<open>(v, r)\<close> and
  opens its commitment, replacing that commitment (and nothing else) by a string that
  decodes to another group element, or does not decode, leaves \<^verbatim>\<open>myBalance = v\<close> and
  sets \<^verbatim>\<open>myEntryValid = false\<close>.
\<close>

theorem commitment_tamper_flags_entry:
  assumes f: "findIndex (\<lambda>e. holderId e = id_kp me) (entries ledger) = Some i"
    and d: "decryptOpening p (secretKey (x25519 me)) (openingEncrypted (entries ledger ! i)) = Some (v, r)"
    and vo: "verifyOpening c (commit_hex (entries ledger ! i)) v r"
    and ne: "pointFromHex c h \<noteq> pointFromHex c (commit_hex (entries ledger ! i))"
  shows "\<exists>view. getUserView c p (setCommit ledger i h) me = Inr view \<and>
           myBalance view = Some v \<and> myEntryValid view = False"
proof -
  let ?e = "(entries ledger ! i)\<lparr>commit_hex := h\<rparr>"
  from findIndex_Some[OF f] have P: "holderId (entries ledger ! i) = id_kp me" by simp
  then have "holderId ?e = id_kp me" by simp
  from findIndex_update[OF f this]
  have "find (\<lambda>e. holderId e = id_kp me) (entries (setCommit ledger i h)) =
        Some ((entries (setCommit ledger i h)) ! i)"
    unfolding setCommit_simps by (rule find_at_findIndex)
  moreover have "(entries (setCommit ledger i h)) ! i = ?e"
    using findIndex_Some[OF f] by (simp add: setCommit_simps)
  ultimately have fnd: "find (\<lambda>e. holderId e = id_kp me) (entries (setCommit ledger i h)) = Some ?e"
    by simp
  from vo obtain P where "pointFromHex c (commit_hex (entries ledger ! i)) = Some P"
    "commit c v r = Some P" by (auto simp: verifyOpening_def split: option.splits)
  with ne have "\<not> verifyOpening c h v r" by (auto simp: verifyOpening_def split: option.splits)
  with getUserView_result[of c p "setCommit ledger i h" me] fnd d show ?thesis by auto
qed

theorem commitment_tamper_flags_entry_witness:
  "findIndex (\<lambda>e. holderId e = id_kp alice) (entries ledger1) = Some 0 \<and>
   decryptOpening toy_platform (secretKey (x25519 alice)) (openingEncrypted (entries ledger1 ! 0)) =
     Some (200, 1) \<and>
   verifyOpening Zcurve (commit_hex (entries ledger1 ! 0)) 200 1 \<and>
   pointFromHex Zcurve ''00'' \<noteq> pointFromHex Zcurve (commit_hex (entries ledger1 ! 0)) \<and>
   (\<exists>view. getUserView Zcurve toy_platform (setCommit ledger1 0 ''00'') alice = Inr view \<and>
      myBalance view = Some 200 \<and> myEntryValid view = False)"
proof -
  have ne: "pointFromHex Zcurve ''00'' \<noteq> pointFromHex Zcurve (commit_hex (entries ledger1 ! 0))"
    by (simp only: pointFromHex_short ledger1_commit_decodes) simp
  from commitment_tamper_flags_entry[OF findIndex_ledger1 ledger1_entries(4) verifyOpening_ledger1 ne]
    findIndex_ledger1 ledger1_entries(4) verifyOpening_ledger1 ne
  show ?thesis by blast
qed

text \<open>
  C7 as stated, for any replacement: \<^verbatim>\<open>hex.toBytes\<close> reads upper-case digits as well, so
  the commitment \<^verbatim>\<open>ca00...\<close> replaced by \<^verbatim>\<open>CA00...\<close> denotes the same group element and
  the entry stays valid.
\<close>

theorem commitment_tamper_flags_entry_counterexample:
  "commit_hex (entries ledger1 ! 0) =
     ''ca00000000000000000000000000000000000000000000000000000000000000'' \<and>
   map_sum id myBalance (getUserView Zcurve toy_platform
     (setCommit ledger1 0 ''CA00000000000000000000000000000000000000000000000000000000000000'') alice)
     = Inr (Some 200) \<and>
   map_sum id myEntryValid (getUserView Zcurve toy_platform
     (setCommit ledger1 0 ''CA00000000000000000000000000000000000000000000000000000000000000'') alice)
     = Inr True"
proof -
  let ?h = "''CA00000000000000000000000000000000000000000000000000000000000000''"
  let ?l = "setCommit ledger1 0 ?h"
  have same: "pointFromHex Zcurve ?h = pointFromHex Zcurve (commit_hex (entries ledger1 ! 0))"
    unfolding ledger1_commit_hex pointFromHex_def by (simp only: hex_upper_same)
  have fi: "findIndex (\<lambda>e. holderId e = id_kp alice) (entries ?l) = Some 0"
    unfolding setCommit_simps
    using findIndex_Some[OF findIndex_ledger1] by (intro findIndex_update[OF findIndex_ledger1]) simp
  have e0: "entries ?l ! 0 = (entries ledger1 ! 0)\<lparr>commit_hex := ?h\<rparr>"
    using ledger1_entries(1) by (simp add: setCommit_simps)
  have fnd: "find (\<lambda>e. holderId e = id_kp alice) (entries ?l) = Some ((entries ledger1 ! 0)\<lparr>commit_hex := ?h\<rparr>)"
    using find_at_findIndex[OF fi] by (simp only: e0)
  have vo: "verifyOpening Zcurve ?h 200 1"
    using verifyOpening_ledger1 verifyOpening_cong[OF same] by simp
  from getUserView_result[of Zcurve toy_platform ?l alice]
  obtain view where "getUserView Zcurve toy_platform ?l alice = Inr view"
    "myBalance view = Some 200" "myEntryValid view = True"
    unfolding fnd using ledger1_entries(4) vo by auto
  then show ?thesis by (simp add: ledger1_commit_hex)
qed

text \<open>
  C8 (the verification path never raises): for every ledger, \<^verbatim>\<open>verifyTotal\<close> is
  \<^verbatim>\<open>true\<close> exactly when the body of its \<^verbatim>\<open>try\<close> returns \<^verbatim>\<open>true\<close>, and \<^verbatim>\<open>false\<close>
  when that body returns \<^verbatim>\<open>false\<close> or throws; \<^verbatim>\<open>getUserView\<close> returns a view (the
  \<^verbatim>\<open>BigInt(ledger.total.T)\<close> outside its \<^verbatim>\<open>try\<close> cannot throw, being evaluated only
  after \<^verbatim>\<open>verifyTotal\<close> has parsed the same string), whose public total is \<open>None\<close>
  unless the ledger verifies.
\<close>

theorem verification_never_raises:
  "verifyTotal c ledger = (verifyTotal_try c ledger = Some True) \<and>
   (\<exists>view. getUserView c p ledger me = Inr view \<and>
      publicTotal view = (if verifyTotal c ledger then decToBig (total_T (total ledger)) else None))"
proof -
  have "verifyTotal c ledger = (verifyTotal_try c ledger = Some True)"
    by (cases "verifyTotal_try c ledger") (simp_all add: verifyTotal_def)
  with getUserView_result[of c p ledger me] show ?thesis by blast
qed

text \<open>
  C9 (copy on write): a successful \<^verbatim>\<open>updateOwnEntry\<close> writes to no array that existed
  before the call, so the caller's ledger denotes the same value afterwards; the ledger it
  returns refers to a fresh array, and differs from the input in the entry of the caller
  and in the total only: the version, the flag, the number of entries and every other
  entry, at its position, are the input's. The returned ledger is the one that the
  function on values, \<open>updateOwnEntry\<close>, computes.
\<close>

theorem updateOwnEntry_copy_on_write:
  assumes valid: "entries_r l < length st"
    and u: "updateOwnEntry_store c p g st l me amt = Inr (l', st')"
  shows "(\<forall>k < length st. st' ! k = st ! k) \<and> deref st' l = deref st l \<and>
         entries_r l' = length st \<and>
         updateOwnEntry c p g (deref st l) me amt = Inr (deref st' l') \<and>
         version (deref st' l') = version (deref st l) \<and>
         allowSelfUpdate (deref st' l') = allowSelfUpdate (deref st l) \<and>
         length (entries (deref st' l')) = length (entries (deref st l)) \<and>
         (\<exists>i. findIndex (\<lambda>e. holderId e = id_kp me) (entries (deref st l)) = Some i \<and>
              holderId (entries (deref st' l') ! i) = id_kp me \<and>
              (\<forall>j < length (entries (deref st l)). j \<noteq> i \<longrightarrow>
                 entries (deref st' l') ! j = entries (deref st l) ! j))"
proof -
  from updateOwnEntry_store_Inr[OF u] obtain i0 e0 where
    st': "st' = assignIndex (snd (spreadCopy st (entries_r l))) (fst (spreadCopy st (entries_r l))) i0 e0"
    and fr: "entries_r l' = length st" by blast
  have same: "\<forall>k < length st. st' ! k = st ! k"
    unfolding st' by (simp add: store_copy_write(2))
  with valid have input: "deref st' l = deref st l" by (simp add: deref_def)
  have pure: "updateOwnEntry c p g (deref st l) me amt = Inr (deref st' l')"
    using updateOwnEntry_store_refines[of c p g st l me amt] u by simp
  from pure obtain i oldV oldR newV newR newC newEnc oldT oldRsum newCsum where
    fi: "findIndex (\<lambda>e. holderId e = id_kp me) (entries (deref st l)) = Some i" and
    res: "deref st' l' = (deref st l)\<lparr>entries := (entries (deref st l))[i := \<lparr>holderId = id_kp me,
                          commit_hex = pointToHex c newC, openingEncrypted = newEnc\<rparr>],
                        total := \<lparr>total_T = bigToDec (oldT - oldV + newV),
                                  total_R = bigToDec (modL (oldRsum - oldR + newR)),
                                  commitSum = pointToHex c newCsum\<rparr>\<rparr>"
    by (rule updateOwnEntry_Inr)
  have i: "i < length (entries (deref st l))" using findIndex_Some[OF fi] by simp
  have "version (deref st' l') = version (deref st l)"
    "allowSelfUpdate (deref st' l') = allowSelfUpdate (deref st l)"
    "length (entries (deref st' l')) = length (entries (deref st l))"
    "holderId (entries (deref st' l') ! i) = id_kp me"
    "\<forall>j < length (entries (deref st l)). j \<noteq> i \<longrightarrow>
       entries (deref st' l') ! j = entries (deref st l) ! j"
    unfolding res using i by simp_all
  with same input fr pure fi show ?thesis by blast
qed

theorem updateOwnEntry_copy_on_write_witness:
  "(0::nat) < length [entries ledger1] \<and>
   deref [entries ledger1] \<lparr>version_r = ''1'', entries_r = 0, total_r = total ledger1,
                             allowSelfUpdate_r = Some True\<rparr> = ledger1 \<and>
   (\<exists>l' st'.
      updateOwnEntry_store Zcurve toy_platform rng0 [entries ledger1]
        \<lparr>version_r = ''1'', entries_r = 0, total_r = total ledger1, allowSelfUpdate_r = Some True\<rparr>
        alice (JSInteger 50) = Inr (l', st') \<and>
      st' ! 0 = entries ledger1 \<and> entries_r l' = 1 \<and>
      updateOwnEntry Zcurve toy_platform rng0 ledger1 alice (JSInteger 50) = Inr (deref st' l') \<and>
      version (deref st' l') = version ledger1 \<and>
      allowSelfUpdate (deref st' l') = allowSelfUpdate ledger1 \<and>
      length (entries (deref st' l')) = length (entries ledger1))"
proof -
  let ?st = "[entries ledger1]"
  let ?l = "\<lparr>version_r = ''1'', entries_r = 0, total_r = total ledger1, allowSelfUpdate_r = Some True\<rparr>"
  obtain enc where l1: "ledger1 = \<lparr>version = ''1'',
                entries = [\<lparr>holderId = ''alice'',
                            commit_hex = pointToHex Zcurve (pedersenPoint Zcurve 200 1),
                            openingEncrypted = enc\<rparr>],
                total = \<lparr>total_T = bigToDec 200, total_R = bigToDec 1,
                         commitSum = pointToHex Zcurve (pedersenPoint Zcurve 200 1)\<rparr>,
                allowSelfUpdate = Some True\<rparr>"
    by (rule ledger1_minted)
  have "version ledger1 = ''1''" using arg_cong[OF l1, of version] by simp
  moreover have "allowSelfUpdate ledger1 = Some True" by (rule ledger1_entries(8))
  ultimately have d: "deref ?st ?l = ledger1"
    by (intro LedgerState.equality) (simp_all add: deref_def)
  have valid: "entries_r ?l < length ?st" by simp
  have n: "(0::int) \<le> 50" "(50::int) < L" by (simp_all add: L_gt_small)
  have "\<exists>ledger'. updateOwnEntry Zcurve toy_platform rng0 ledger1 alice (JSInteger 50) = Inr ledger'"
    using curve_ok_Zcurve platform_ok_toy validKeyPair_alice ledger1_entries(8) findIndex_ledger1
      ledger1_entries(4) n
    by (rule updateOwnEntry_returns) (simp_all add: decToBig_ledger1 ledger1_entries(1))
  then obtain ledger' where "updateOwnEntry Zcurve toy_platform rng0 ledger1 alice (JSInteger 50) = Inr ledger'" ..
  with updateOwnEntry_store_refines[of Zcurve toy_platform rng0 ?st ?l alice "JSInteger 50"]
  obtain l' st' where u: "updateOwnEntry_store Zcurve toy_platform rng0 ?st ?l alice (JSInteger 50) = Inr (l', st')"
    unfolding d by (cases "updateOwnEntry_store Zcurve toy_platform rng0 ?st ?l alice (JSInteger 50)") auto
  from updateOwnEntry_copy_on_write[OF valid u] d u show ?thesis by auto
qed

text \<open>
  C10 (no entry): when no entry of the ledger has the id of the key pair,
  \<^verbatim>\<open>getUserView\<close> returns the balance \<open>None\<close> together with \<^verbatim>\<open>myEntryValid = true\<close>.
\<close>

theorem view_without_entry:
  assumes "\<forall>e \<in> set (entries ledger). holderId e \<noteq> id_kp me"
  shows "\<exists>view. getUserView c p ledger me = Inr view \<and> myBalance view = None \<and> myEntryValid view = True"
proof -
  from assms have "find (\<lambda>e. holderId e = id_kp me) (entries ledger) = None"
    by (simp add: find_None_iff)
  with getUserView_result[of c p ledger me] show ?thesis by auto
qed

theorem view_without_entry_witness:
  "map holderId (entries ledger1) = [''alice''] \<and> id_kp bob = ''bob'' \<and>
   (\<exists>view. getUserView Zcurve toy_platform ledger1 bob = Inr view \<and>
      myBalance view = None \<and> myEntryValid view = True)"
proof -
  have "entries ledger1 = [entries ledger1 ! 0]"
    using ledger1_entries(1) by (cases "entries ledger1") simp_all
  then have m: "map holderId (entries ledger1) = [''alice'']"
    using ledger1_entries(2) by (metis list.simps(8) list.simps(9))
  have b: "id_kp bob = ''bob''" by (simp add: bob_def)
  have "\<forall>h \<in> set (map holderId (entries ledger1)). h \<noteq> id_kp bob"
    unfolding m b by simp
  then have h: "\<forall>e \<in> set (entries ledger1). holderId e \<noteq> id_kp bob" by simp
  from view_without_entry[OF h] m b show ?thesis by blast
qed

end
